theory Spec2Isabelle
  imports Main
begin

section \<open>JavaScript strings\<close>

text \<open>
  A JavaScript string is a sequence of UTF-16 code units. The model uses \<open>string\<close>
  (lists of \<open>char\<close>) and so covers the code units 0 to 255. In that range the white
  space of \<open>\s\<close> and of \<open>trim\<close> is TAB, LF, VT, FF, CR, SPACE and NBSP, the line
  terminators (what \<open>.\<close> excludes and what \<open>^\<close> and \<open>$\<close> look at under the \<open>m\<close> flag)
  are LF and CR, and \<open>\d\<close> is the ten ASCII digits.
\<close>

definition is_line_terminator :: "char \<Rightarrow> bool" where
  "is_line_terminator c = (c = CHR 0x0A \<or> c = CHR 0x0D)"

definition is_space :: "char \<Rightarrow> bool" where
  "is_space c = (c = CHR 0x09 \<or> c = CHR 0x0A \<or> c = CHR 0x0B \<or> c = CHR 0x0C \<or> c = CHR 0x0D
     \<or> c = CHR 0x20 \<or> c = CHR 0xA0)"

definition is_dot :: "char \<Rightarrow> bool" where
  "is_dot c = (if is_line_terminator c then False else True)"

definition is_digit :: "char \<Rightarrow> bool" where
  "is_digit c = (c \<in> set ''0123456789'')"

definition trimStart :: "string \<Rightarrow> string" where
  "trimStart s = dropWhile is_space s"

definition trimEnd :: "string \<Rightarrow> string" where
  "trimEnd s = rev (dropWhile is_space (rev s))"

definition trim :: "string \<Rightarrow> string" where
  "trim s = trimStart (trimEnd s)"

text \<open>Decimal rendering of a non-negative integer, as in a template literal.\<close>

function show_nat :: "nat \<Rightarrow> string" where
  "show_nat n = (if n < 10 then [''0123456789'' ! n]
                 else show_nat (n div 10) @ [''0123456789'' ! (n mod 10)])"
  by pat_completeness auto
termination
  by (relation "measure id") auto

text \<open>
  \<open>Number(s)\<close> on a string of ASCII digits (what the page script's \<open>(\d+)\<close> captures): the
  double nearest to the decimal value, a tie going to the even significand. A double has 53
  significant bits, so every value of at most 53 bits is kept, and above that the low
  \<open>bit_length n - 53\<close> bits are rounded away. Where \<open>Number\<close> gives \<open>Infinity\<close> (from
  \<open>2^1024 - 2^970\<close> on, a string of more than 308 digits) the model has no value for it and
  goes on rounding.
\<close>

definition digit_value :: "char \<Rightarrow> nat" where
  "digit_value c = of_char c - 48"

function bit_length :: "nat \<Rightarrow> nat" where
  "bit_length n = (if n = 0 then 0 else Suc (bit_length (n div 2)))"
  by pat_completeness auto
termination
  by (relation "measure id") auto

definition to_double :: "nat \<Rightarrow> nat" where
  "to_double n =
     (if bit_length n \<le> 53 then n
      else (let e = bit_length n - 53; q = n div 2 ^ e; r = n mod 2 ^ e
            in if 2 ^ (e - 1) < r \<or> (r = 2 ^ (e - 1) \<and> odd q) then (q + 1) * 2 ^ e
               else q * 2 ^ e))"

definition Number_of :: "string \<Rightarrow> nat" where
  "Number_of s = to_double (foldl (\<lambda>n c. 10 * n + digit_value c) 0 s)"

text \<open>ASCII case folding, what the \<open>i\<close> flag does to the characters of the patterns below.\<close>

definition to_lower :: "char \<Rightarrow> char" where
  "to_lower c = (case map_of (zip ''ABCDEFGHIJKLMNOPQRSTUVWXYZ'' ''abcdefghijklmnopqrstuvwxyz'') c of
                   None \<Rightarrow> c | Some l \<Rightarrow> l)"

section \<open>Backtracking regular expressions\<close>

text \<open>
  The regular expressions of \<open>popup.js\<close> are written with matcher combinators in
  continuation-passing style, following the backtracking semantics of ECMAScript: a matcher
  takes the state at a position and the continuation for the rest of the pattern, and a
  quantifier tries its alternatives in priority order (greedy: longest first, lazy:
  shortest first) until the continuation succeeds.

  A state is the input before the position (reversed, so that its head is the previous
  character), the input from the position on, and the captures made so far.
\<close>

datatype mstate = MState (seen: string) (todo: string) (caps: "(nat \<times> string) list")

type_synonym matcher = "mstate \<Rightarrow> (mstate \<Rightarrow> mstate option) \<Rightarrow> mstate option"

text \<open>One character of a class.\<close>

fun cls :: "(char \<Rightarrow> bool) \<Rightarrow> matcher" where
  "cls p (MState sn [] cp) k = None"
| "cls p (MState sn (c # cs) cp) k = (if p c then k (MState (c # sn) cs cp) else None)"

fun lit :: "string \<Rightarrow> matcher" where
  "lit [] st k = k st"
| "lit (x # xs) st k = cls (\<lambda>c. c = x) st (\<lambda>st'. lit xs st' k)"

fun lit_ci :: "string \<Rightarrow> matcher" where
  "lit_ci [] st k = k st"
| "lit_ci (x # xs) st k = cls (\<lambda>c. to_lower c = to_lower x) st (\<lambda>st'. lit_ci xs st' k)"

definition dec :: "nat option \<Rightarrow> nat option" where
  "dec hi = (case hi of None \<Rightarrow> None | Some h \<Rightarrow> Some (h - 1))"

text \<open>\<open>p{lo,hi}\<close> for a character class \<open>p\<close> (\<open>hi = None\<close>: unbounded), greedy.\<close>

fun rep_greedy_aux :: "(char \<Rightarrow> bool) \<Rightarrow> nat \<Rightarrow> nat option \<Rightarrow> (nat \<times> string) list \<Rightarrow>
    string \<Rightarrow> string \<Rightarrow> (mstate \<Rightarrow> mstate option) \<Rightarrow> mstate option" where
  "rep_greedy_aux p lo hi cp sn [] k =
     (if lo = 0 then k (MState sn [] cp) else None)"
| "rep_greedy_aux p lo hi cp sn (c # cs) k =
     (if p c \<and> hi \<noteq> Some 0 then
        (case rep_greedy_aux p (lo - 1) (dec hi) cp (c # sn) cs k of
           Some r \<Rightarrow> Some r
         | None \<Rightarrow> if lo = 0 then k (MState sn (c # cs) cp) else None)
      else if lo = 0 then k (MState sn (c # cs) cp) else None)"

fun rep_greedy :: "(char \<Rightarrow> bool) \<Rightarrow> nat \<Rightarrow> nat option \<Rightarrow> matcher" where
  "rep_greedy p lo hi (MState sn td cp) k = rep_greedy_aux p lo hi cp sn td k"

text \<open>The lazy form \<open>p{lo,hi}?\<close>.\<close>

fun rep_lazy_aux :: "(char \<Rightarrow> bool) \<Rightarrow> nat \<Rightarrow> nat option \<Rightarrow> (nat \<times> string) list \<Rightarrow>
    string \<Rightarrow> string \<Rightarrow> (mstate \<Rightarrow> mstate option) \<Rightarrow> mstate option" where
  "rep_lazy_aux p lo hi cp sn [] k =
     (if lo = 0 then k (MState sn [] cp) else None)"
| "rep_lazy_aux p lo hi cp sn (c # cs) k =
     (case (if lo = 0 then k (MState sn (c # cs) cp) else None) of
        Some r \<Rightarrow> Some r
      | None \<Rightarrow> if p c \<and> hi \<noteq> Some 0 then rep_lazy_aux p (lo - 1) (dec hi) cp (c # sn) cs k
                else None)"

fun rep_lazy :: "(char \<Rightarrow> bool) \<Rightarrow> nat \<Rightarrow> nat option \<Rightarrow> matcher" where
  "rep_lazy p lo hi (MState sn td cp) k = rep_lazy_aux p lo hi cp sn td k"

fun seqs :: "matcher list \<Rightarrow> matcher" where
  "seqs [] st k = k st"
| "seqs (m # ms) st k = m st (\<lambda>st'. seqs ms st' k)"

fun alts :: "matcher list \<Rightarrow> matcher" where
  "alts [] st k = None"
| "alts (m # ms) st k = (case m st k of Some r \<Rightarrow> Some r | None \<Rightarrow> alts ms st k)"

text \<open>A capturing group: on leaving it, the text consumed inside is recorded.\<close>

fun set_cap :: "nat \<Rightarrow> string \<Rightarrow> (mstate \<Rightarrow> mstate option) \<Rightarrow> mstate \<Rightarrow> mstate option" where
  "set_cap i td k (MState sn' td' cp') = k (MState sn' td' ((i, take (length td - length td') td) # cp'))"

fun grp :: "nat \<Rightarrow> matcher \<Rightarrow> matcher" where
  "grp i m (MState sn td cp) k = m (MState sn td cp) (set_cap i td k)"

definition cap_of :: "(nat \<times> string) list \<Rightarrow> nat \<Rightarrow> string" where
  "cap_of cp i = (case map_of cp i of None \<Rightarrow> [] | Some x \<Rightarrow> x)"

fun backref :: "nat \<Rightarrow> matcher" where
  "backref i (MState sn td cp) k = lit (cap_of cp i) (MState sn td cp) k"

text \<open>\<open>^\<close> and \<open>$\<close> under the \<open>m\<close> flag, and \<open>^\<close> without it.\<close>

fun bol_m :: matcher where
  "bol_m (MState [] td cp) k = k (MState [] td cp)"
| "bol_m (MState (c # sn) td cp) k = (if is_line_terminator c then k (MState (c # sn) td cp) else None)"

fun eol_m :: matcher where
  "eol_m (MState sn [] cp) k = k (MState sn [] cp)"
| "eol_m (MState sn (c # cs) cp) k = (if is_line_terminator c then k (MState sn (c # cs) cp) else None)"

fun bos :: matcher where
  "bos (MState [] td cp) k = k (MState [] td cp)"
| "bos (MState (c # sn) td cp) k = None"

text \<open>
  \<open>(?:m)+\<close>, greedy, for a group \<open>m\<close>: after an iteration, first try another one, then
  the continuation. An iteration that consumes nothing is not repeated. Each further
  iteration consumes a character, so the number of iterations is bounded by the length
  of the input, which is the fuel \<open>plus_group\<close> gives.
\<close>

fun again :: "nat \<Rightarrow> (mstate \<Rightarrow> mstate option) \<Rightarrow> (mstate \<Rightarrow> mstate option) \<Rightarrow> mstate \<Rightarrow> mstate option" where
  "again len more k (MState sn' td' cp') =
     (case (if length td' < len then more (MState sn' td' cp') else None) of
        Some r \<Rightarrow> Some r
      | None \<Rightarrow> k (MState sn' td' cp'))"

fun plus_iter :: "nat \<Rightarrow> matcher \<Rightarrow> matcher" where
  "plus_iter 0 m st k = None"
| "plus_iter (Suc n) m (MState sn td cp) k =
     m (MState sn td cp) (again (length td) (\<lambda>st'. plus_iter n m st' k) k)"

fun plus_group :: "matcher \<Rightarrow> matcher" where
  "plus_group m (MState sn td cp) k = plus_iter (Suc (length td)) m (MState sn td cp) k"

definition exec :: "matcher \<Rightarrow> string \<Rightarrow> string \<Rightarrow> mstate option" where
  "exec m sn td = m (MState sn td []) Some"

subsection \<open>Scanning: what a global replace sees\<close>

text \<open>
  \<open>String.prototype.replace\<close> with a \<open>g\<close> regex finds the leftmost match from the current
  index, continues after it (one character further after an empty match), and keeps the
  characters between the matches. \<open>scan\<close> returns that decomposition: the characters kept
  and, for every match, the matched text, its captures, and the text before and after it.
\<close>

datatype piece = Chr char | Mtch string "(nat \<times> string) list" string string

function scan :: "matcher \<Rightarrow> string \<Rightarrow> string \<Rightarrow> piece list" where
  "scan m sn [] =
     (case exec m sn [] of
        None \<Rightarrow> []
      | Some st' \<Rightarrow> [Mtch [] (caps st') (rev sn) []])"
| "scan m sn (c # cs) =
     (case exec m sn (c # cs) of
        None \<Rightarrow> Chr c # scan m (c # sn) cs
      | Some st' \<Rightarrow>
          (let n = length (c # cs) - length (todo st') in
           if n = 0 then Mtch [] (caps st') (rev sn) (c # cs) # Chr c # scan m (c # sn) cs
           else Mtch (take n (c # cs)) (caps st') (rev sn) (drop n (c # cs))
                  # scan m (rev (take n (c # cs)) @ sn) (drop n (c # cs))))"
  by pat_completeness auto
termination
  by (relation "measure (\<lambda>(m, sn, td). length td)") auto

text \<open>The replacement patterns of a string replacement (\<open>GetSubstitution\<close>): \<open>$$\<close>, \<open>$&\<close>,
  \<open>$`\<close>, \<open>$'\<close> and \<open>$n\<close>, \<open>$nn\<close> for the captures \<open>cs\<close>; any other \<open>$\<close> stands for itself.\<close>

fun get_substitution :: "string \<Rightarrow> string \<Rightarrow> string \<Rightarrow> string list \<Rightarrow> string \<Rightarrow> string" where
  "get_substitution mt bf af cs [] = []"
| "get_substitution mt bf af cs [c] = [c]"
| "get_substitution mt bf af cs (c # d # r) =
     (if c \<noteq> CHR ''$'' then c # get_substitution mt bf af cs (d # r)
      else if d = CHR ''$'' then CHR ''$'' # get_substitution mt bf af cs r
      else if d = CHR ''&'' then mt @ get_substitution mt bf af cs r
      else if d = CHR 0x60 then bf @ get_substitution mt bf af cs r
      else if d = CHR 0x27 then af @ get_substitution mt bf af cs r
      else if is_digit d then
        (case r of
           [] \<Rightarrow> (if 1 \<le> digit_value d \<and> digit_value d \<le> length cs
                  then cs ! (digit_value d - 1) else [c, d])
         | e # r' \<Rightarrow>
             (if is_digit e \<and> 10 * digit_value d + digit_value e \<le> length cs then
                (if 1 \<le> 10 * digit_value d + digit_value e
                 then cs ! (10 * digit_value d + digit_value e - 1) @ get_substitution mt bf af cs r'
                 else c # d # e # get_substitution mt bf af cs r')
              else if 1 \<le> digit_value d \<and> digit_value d \<le> length cs
                then cs ! (digit_value d - 1) @ get_substitution mt bf af cs (e # r')
              else c # d # get_substitution mt bf af cs (e # r')))
      else c # get_substitution mt bf af cs (d # r))"

text \<open>\<open>text.replace(regex, f)\<close> with a function, and with a replacement string for a regex
  of \<open>n\<close> groups: the kept characters stand for themselves, and every match is replaced.\<close>

fun render_piece :: "(string \<Rightarrow> (nat \<times> string) list \<Rightarrow> string \<Rightarrow> string \<Rightarrow> string) \<Rightarrow> piece \<Rightarrow> string" where
  "render_piece f (Chr c) = [c]"
| "render_piece f (Mtch mt cp bf af) = f mt cp bf af"

definition caps_list :: "nat \<Rightarrow> (nat \<times> string) list \<Rightarrow> string list" where
  "caps_list n cp = map (cap_of cp) [1..<Suc n]"

definition replace_all_fn :: "matcher \<Rightarrow> (string \<Rightarrow> (nat \<times> string) list \<Rightarrow> string) \<Rightarrow> string \<Rightarrow> string" where
  "replace_all_fn m f text =
     concat (map (render_piece (\<lambda>mt cp bf af. f mt cp)) (scan m [] text))"

definition replace_all_tpl :: "matcher \<Rightarrow> nat \<Rightarrow> string \<Rightarrow> string \<Rightarrow> string" where
  "replace_all_tpl m n tpl text =
     concat (map (render_piece (\<lambda>mt cp bf af. get_substitution mt bf af (caps_list n cp) tpl))
                 (scan m [] text))"

text \<open>\<open>line.replace(regex, f)\<close> without the \<open>g\<close> flag: the leftmost match only.\<close>

fun replace_first_fn :: "matcher \<Rightarrow> (string \<Rightarrow> (nat \<times> string) list \<Rightarrow> string) \<Rightarrow> string \<Rightarrow> string \<Rightarrow> string" where
  "replace_first_fn m f sn [] = (case exec m sn [] of None \<Rightarrow> [] | Some st' \<Rightarrow> f [] (caps st'))"
| "replace_first_fn m f sn (c # cs) =
     (case exec m sn (c # cs) of
        None \<Rightarrow> c # replace_first_fn m f (c # sn) cs
      | Some st' \<Rightarrow> (let n = length (c # cs) - length (todo st') in
                     f (take n (c # cs)) (caps st') @ drop n (c # cs)))"

text \<open>\<open>regex.test(s)\<close>: is there a match at some position.\<close>

fun regex_test_from :: "matcher \<Rightarrow> string \<Rightarrow> string \<Rightarrow> bool" where
  "regex_test_from m sn [] = (case exec m sn [] of None \<Rightarrow> False | Some st' \<Rightarrow> True)"
| "regex_test_from m sn (c # cs) =
     (case exec m sn (c # cs) of None \<Rightarrow> regex_test_from m (c # sn) cs | Some st' \<Rightarrow> True)"

definition regex_test :: "matcher \<Rightarrow> string \<Rightarrow> bool" where
  "regex_test m s = regex_test_from m [] s"

text \<open>\<open>s.split(regex)\<close> for a regex without groups: at every position before the end a match
  is tried; a non-empty match closes the current part (\<open>cur\<close>, reversed). The empty string
  splits into one empty part, since none of the separators used matches the empty string.\<close>

function split_from :: "matcher \<Rightarrow> string \<Rightarrow> string \<Rightarrow> string \<Rightarrow> string list" where
  "split_from m sn cur [] = [rev cur]"
| "split_from m sn cur (c # cs) =
     (case exec m sn (c # cs) of
        None \<Rightarrow> split_from m (c # sn) (c # cur) cs
      | Some st' \<Rightarrow>
          (let n = length (c # cs) - length (todo st') in
           if n = 0 then split_from m (c # sn) (c # cur) cs
           else rev cur # split_from m (rev (take n (c # cs)) @ sn) [] (drop n (c # cs))))"
  by pat_completeness auto
termination
  by (relation "measure (\<lambda>(m, sn, cur, td). length td)") auto

definition split_re :: "matcher \<Rightarrow> string \<Rightarrow> string list" where
  "split_re m s = split_from m [] [] s"

text \<open>\<open>text.replace(pattern, replacement)\<close> with two strings: the first occurrence of the
  pattern is replaced, and the replacement patterns of the replacement are expanded.\<close>

fun find_str :: "string \<Rightarrow> string \<Rightarrow> string \<Rightarrow> (string \<times> string) option" where
  "find_str pat acc [] = (if pat = [] then Some (rev acc, []) else None)"
| "find_str pat acc (c # cs) =
     (if take (length pat) (c # cs) = pat then Some (rev acc, drop (length pat) (c # cs))
      else find_str pat (c # acc) cs)"

definition replace_str :: "string \<Rightarrow> string \<Rightarrow> string \<Rightarrow> string" where
  "replace_str pat repl text =
     (case find_str pat [] text of
        None \<Rightarrow> text
      | Some (bf, af) \<Rightarrow> bf @ get_substitution pat bf af [] repl @ af)"

section \<open>The Markdown renderer\<close>

text \<open>\<open>escapeHtml\<close>: five global replacements of one character, \<open>&\<close> first.\<close>

definition replace_char :: "char \<Rightarrow> string \<Rightarrow> string \<Rightarrow> string" where
  "replace_char c r s = concat (map (\<lambda>x. if x = c then r else [x]) s)"

definition escapeHtml :: "string \<Rightarrow> string" where
  "escapeHtml str =
     replace_char (CHR 0x27) ''&#39;''
       (replace_char (CHR 0x22) ''&quot;''
         (replace_char (CHR ''>'') ''&gt;''
           (replace_char (CHR ''<'') ''&lt;''
             (replace_char (CHR ''&'') ''&amp;'' str))))"

text \<open>The regular expressions of \<open>renderMarkdown\<close>, in the order of the source.\<close>

definition fence_re :: matcher where
  \<comment> \<open>\<^verbatim>\<open>/```([\s\S]*?)```/g\<close>\<close>
  "fence_re = seqs [lit [CHR 0x60, CHR 0x60, CHR 0x60], grp 1 (rep_lazy (\<lambda>c. True) 0 None),
                    lit [CHR 0x60, CHR 0x60, CHR 0x60]]"

definition heading_re :: matcher where
  \<comment> \<open>\<^verbatim>\<open>/^(#{1,6})\s+(.+)$/gm\<close>\<close>
  "heading_re = seqs [bol_m, grp 1 (rep_greedy (\<lambda>c. c = CHR ''#'') 1 (Some 6)),
                      rep_greedy is_space 1 None, grp 2 (rep_greedy is_dot 1 None), eol_m]"

definition blockquote_re :: matcher where
  \<comment> \<open>\<^verbatim>\<open>/^>\s?(.*)$/gm\<close>\<close>
  "blockquote_re = seqs [bol_m, lit ''>'', rep_greedy is_space 0 (Some 1),
                         grp 1 (rep_greedy is_dot 0 None), eol_m]"

definition ol_item :: matcher where
  \<comment> \<open>\<^verbatim>\<open>\s*\d+\.\s+.+\n?\<close>\<close>
  "ol_item = seqs [rep_greedy is_space 0 None, rep_greedy is_digit 1 None, lit ''.'',
                   rep_greedy is_space 1 None, rep_greedy is_dot 1 None,
                   rep_greedy (\<lambda>c. c = CHR 0x0A) 0 (Some 1)]"

definition ol_re :: matcher where
  \<comment> \<open>\<^verbatim>\<open>/^(?:\s*\d+\.\s+.+\n?)+/gm\<close>\<close>
  "ol_re = seqs [bol_m, plus_group ol_item]"

definition ol_prefix_re :: matcher where
  \<comment> \<open>\<^verbatim>\<open>/^\s*\d+\.\s+/\<close>\<close>
  "ol_prefix_re = seqs [bos, rep_greedy is_space 0 None, rep_greedy is_digit 1 None, lit ''.'',
                        rep_greedy is_space 1 None]"

definition is_bullet :: "char \<Rightarrow> bool" where
  "is_bullet c = (c = CHR ''-'' \<or> c = CHR ''*'' \<or> c = CHR ''+'')"

definition ul_item :: matcher where
  \<comment> \<open>\<^verbatim>\<open>\s*[-*+]\s+.+\n?\<close>\<close>
  "ul_item = seqs [rep_greedy is_space 0 None, cls is_bullet,
                   rep_greedy is_space 1 None, rep_greedy is_dot 1 None,
                   rep_greedy (\<lambda>c. c = CHR 0x0A) 0 (Some 1)]"

definition ul_re :: matcher where
  \<comment> \<open>\<^verbatim>\<open>/^(?:\s*[-*+]\s+.+\n?)+/gm\<close>\<close>
  "ul_re = seqs [bol_m, plus_group ul_item]"

definition ul_prefix_re :: matcher where
  \<comment> \<open>\<^verbatim>\<open>/^\s*[-*+]\s+/\<close>\<close>
  "ul_prefix_re = seqs [bos, rep_greedy is_space 0 None, cls is_bullet, rep_greedy is_space 1 None]"

definition newline_re :: matcher where
  \<comment> \<open>\<^verbatim>\<open>/\n/\<close>\<close>
  "newline_re = lit [CHR 0x0A]"

definition inline_code_re :: matcher where
  \<comment> \<open>\<^verbatim>\<open>/`([^`]+)`/g\<close>\<close>
  "inline_code_re = seqs [lit [CHR 0x60], grp 1 (rep_greedy (\<lambda>c. c \<noteq> CHR 0x60) 1 None),
                          lit [CHR 0x60]]"

definition bold_re :: matcher where
  \<comment> \<open>\<^verbatim>\<open>/\*\*(.+?)\*\*/g\<close>\<close>
  "bold_re = seqs [lit ''**'', grp 1 (rep_lazy is_dot 1 None), lit ''**'']"

definition italic_re :: matcher where
  \<comment> \<open>\<^verbatim>\<open>/(\*|_)([^*_]+)\1/g\<close>\<close>
  "italic_re = seqs [grp 1 (alts [lit ''*'', lit ''_'']),
                     grp 2 (rep_greedy (\<lambda>c. c \<noteq> CHR ''*'' \<and> c \<noteq> CHR ''_'') 1 None), backref 1]"

definition link_re :: matcher where
  \<comment> \<open>\<^verbatim>\<open>/\[([^\]]+)\]\(([^)\s]+)\)/g\<close>\<close>
  "link_re = seqs [lit ''['', grp 1 (rep_greedy (\<lambda>c. c \<noteq> CHR '']'') 1 None), lit '']('',
                   grp 2 (rep_greedy (\<lambda>c. c \<noteq> CHR '')'' \<and> (if is_space c then False else True)) 1 None),
                   lit '')'']"

definition blank_lines_re :: matcher where
  \<comment> \<open>\<^verbatim>\<open>/\n{2,}/\<close>\<close>
  "blank_lines_re = rep_greedy (\<lambda>c. c = CHR 0x0A) 2 None"

definition structural_re :: matcher where
  \<comment> \<open>\<^verbatim>\<open>/^<\/?(h\d|ul|ol|li|pre|blockquote)/i\<close>\<close>
  "structural_re = seqs [bos, lit ''<'', rep_greedy (\<lambda>c. c = CHR ''/'') 0 (Some 1),
                         grp 1 (alts [seqs [lit_ci ''h'', cls is_digit], lit_ci ''ul'', lit_ci ''ol'',
                                      lit_ci ''li'', lit_ci ''pre'', lit_ci ''blockquote''])]"

text \<open>The placeholder of the fenced block with index \<open>i\<close>.\<close>

definition placeholder :: "nat \<Rightarrow> string" where
  "placeholder i = ''@@CODEBLOCK'' @ show_nat i @ ''@@''"

text \<open>The callback of the first replacement pushes the escaped block on \<open>codeBlocks\<close> and
  returns the placeholder of its index; \<open>extract_fences\<close> runs it over the scan.\<close>

fun extract_fences :: "piece list \<Rightarrow> string list \<Rightarrow> string \<times> string list" where
  "extract_fences [] codeBlocks = ([], codeBlocks)"
| "extract_fences (Chr c # ps) codeBlocks =
     (case extract_fences ps codeBlocks of (t, bl) \<Rightarrow> (c # t, bl))"
| "extract_fences (Mtch mt cp bf af # ps) codeBlocks =
     (case extract_fences ps
             (codeBlocks @ [''<pre><code>'' @ escapeHtml (trimEnd (cap_of cp 1)) @ ''</code></pre>''])
      of (t, bl) \<Rightarrow> (placeholder (length codeBlocks) @ t, bl))"

definition heading_fn :: "string \<Rightarrow> (nat \<times> string) list \<Rightarrow> string" where
  "heading_fn mt cp = ''<h'' @ show_nat (length (cap_of cp 1)) @ ''>'' @ trim (cap_of cp 2)
                       @ ''</h'' @ show_nat (length (cap_of cp 1)) @ ''>''"

definition list_items :: "matcher \<Rightarrow> string \<Rightarrow> string" where
  "list_items prefix block =
     concat (map (\<lambda>line. ''<li>'' @ line @ ''</li>'')
              (map (\<lambda>line. replace_first_fn prefix (\<lambda>mt cp. []) [] line)
                (split_re newline_re (trim block))))"

definition inline_code_fn :: "string \<Rightarrow> (nat \<times> string) list \<Rightarrow> string" where
  "inline_code_fn mt cp = ''<code>'' @ escapeHtml (cap_of cp 1) @ ''</code>''"

definition link_tpl :: string where
  "link_tpl = ''<a href='' @ [CHR 0x22] @ ''$2'' @ [CHR 0x22] @ '' target='' @ [CHR 0x22] @ ''_blank''
     @ [CHR 0x22] @ '' rel='' @ [CHR 0x22] @ ''noopener noreferrer'' @ [CHR 0x22] @ ''>$1</a>''"

definition paragraph_block :: "string \<Rightarrow> string" where
  "paragraph_block block =
     (if trim block = [] then []
      else if regex_test structural_re (trim block) then trim block
      else ''<p>'' @ trim block @ ''</p>'')"

text \<open>\<open>codeBlocks.forEach((block, idx) => text = text.replace(placeholder, block))\<close>.\<close>

fun restore_blocks :: "nat \<Rightarrow> string list \<Rightarrow> string \<Rightarrow> string" where
  "restore_blocks idx [] text = text"
| "restore_blocks idx (block # blocks) text =
     restore_blocks (Suc idx) blocks (replace_str (placeholder idx) block text)"

text \<open>The transformations between the extraction of the fenced blocks and their
  restoration, and the renderer. The argument is a string: the \<open>typeof\<close> guard of the
  source returns the empty string for anything else.\<close>

definition render_inline :: "string \<Rightarrow> string" where
  "render_inline text =
     replace_all_tpl link_re 2 link_tpl
       (replace_all_tpl italic_re 2 ''<em>$2</em>''
         (replace_all_tpl bold_re 1 ''<strong>$1</strong>''
           (replace_all_fn inline_code_re inline_code_fn text)))"

definition render_blocks :: "string \<Rightarrow> string" where
  "render_blocks text =
     replace_all_fn ul_re (\<lambda>block cp. ''<ul>'' @ list_items ul_prefix_re block @ ''</ul>'')
       (replace_all_fn ol_re (\<lambda>block cp. ''<ol>'' @ list_items ol_prefix_re block @ ''</ol>'')
         (replace_all_tpl blockquote_re 1 ''<blockquote><p>$1</p></blockquote>''
           (replace_all_fn heading_re heading_fn text)))"

definition wrap_paragraphs :: "string \<Rightarrow> string" where
  "wrap_paragraphs text = concat (map paragraph_block (split_re blank_lines_re text))"

definition renderMarkdown :: "string \<Rightarrow> string" where
  "renderMarkdown md =
     (case extract_fences (scan fence_re [] md) [] of
        (text, codeBlocks) \<Rightarrow>
          restore_blocks 0 codeBlocks
            (wrap_paragraphs (render_inline (render_blocks (escapeHtml text)))))"

section \<open>The popup: data\<close>

text \<open>
  A value that may be \<open>undefined\<close> is an \<open>option\<close>; a string is falsy when it is
  absent or empty. \<open>or_else v d\<close> is \<open>v || d\<close>.
\<close>

definition truthy :: "string option \<Rightarrow> bool" where
  "truthy v = (case v of None \<Rightarrow> False | Some x \<Rightarrow> (if x = [] then False else True))"

definition or_else :: "string option \<Rightarrow> string \<Rightarrow> string" where
  "or_else v d = (case v of None \<Rightarrow> d | Some x \<Rightarrow> if x = [] then d else x)"

text \<open>The property key that an identifier gives when it indexes an object.\<close>

definition key_of :: "string option \<Rightarrow> string" where
  "key_of v = (case v of None \<Rightarrow> ''undefined'' | Some x \<Rightarrow> x)"

record session_rec =
  sessionId :: "string option"
  sess_username :: "string option"
  authToken :: "string option"

datatype question = QChecking | QLoading | QNotLeetCode | QError string | QReady nat string

record pending =
  pnumber :: nat
  ptitle :: string

record message =
  role :: string
  content :: string
  mkey :: "string option"
  temp :: bool

text \<open>What the page and the browser give: the active tab, and the result of the script
  that \<open>extractQuestionFromTab\<close> runs in the page (or its failure).\<close>

record tab =
  tab_id :: nat
  tab_url :: "string option"

record change_info =
  ci_url :: "string option"
  ci_status :: "string option"

record page_info =
  pi_ok :: bool
  pi_questionNumber :: "string option"
  pi_title :: "string option"
  pi_reason :: "string option"

datatype extract_result = ExtractThrew string | PageInfo page_info

text \<open>What the backend gives: a \<open>fetch\<close> is rejected (with the error's message), or
  resolves to a response with its \<open>ok\<close> flag and the result of \<open>resp.json()\<close>.\<close>

record backend_msg =
  m_role :: string
  m_content :: string
  m_ts :: "string option"

record body =
  b_ok :: "bool option"
  b_error :: "string option"
  b_detail :: "string option"
  b_session_id :: "string option"
  b_username :: "string option"
  b_auth_token :: "string option"
  b_messages :: "backend_msg list option"

datatype json_result = BadJson string | Json body

datatype fetch_result = Rejected string | Response bool json_result

text \<open>Every \<open>fetch\<close> the popup issues is logged in the state, so that "no network call" is
  a statement about the log.\<close>

datatype endpoint = CreateSession string | Questions | Whoami | Chat | DeleteSession

datatype req_body = NoBody | QuestionBody nat "string option" | ChatBody string

record request =
  r_verb :: string
  r_endpoint :: endpoint
  r_headers :: "(string \<times> string) list"
  r_body :: req_body

text \<open>
  The state of \<open>App\<close>: the React state variables, the two refs, the two entries of
  \<open>chrome.storage.local\<close> (\<open>lcAssistantSession\<close> and \<open>lcAssistantInitialized\<close>; a missing
  initialized map reads as the empty one), and the log of requests. The initialized map
  takes the property key of a session id to the map from question numbers to timestamps.

  Each function of the next section is the source function run from its call to its end
  with no other handler in between; it takes the results of the asynchronous calls it
  awaits as arguments. What happens when another handler runs while a call is suspended
  is the matter of the state machine further down. The effect that copies \<open>question\<close> into
  \<open>questionRef.current\<close> runs after every render, so \<open>setQuestion\<close> updates both.
\<close>

record app =
  session :: "session_rec option"
  username :: string
  question :: question
  questionRef :: question
  pendingQuestion :: "pending option"
  messages :: "message list"
  chatInput :: string
  busy :: bool
  isSending :: bool
  status :: string
  refreshingQuestion :: bool
  lastTabUrlRef :: "string option option"
  stored_session :: "session_rec option"
  stored_initialized :: "string \<Rightarrow> (nat \<Rightarrow> nat option) option"
  requests :: "request list"

datatype 'a outcome = Threw string | Returned 'a

definition initial_app :: "session_rec option \<Rightarrow> (string \<Rightarrow> (nat \<Rightarrow> nat option) option) \<Rightarrow> app" where
  "initial_app st_session st_initialized =
     \<lparr>session = None, username = [], question = QChecking, questionRef = QChecking,
      pendingQuestion = None, messages = [], chatInput = [], busy = False, isSending = False,
      status = [], refreshingQuestion = False, lastTabUrlRef = None,
      stored_session = st_session, stored_initialized = st_initialized, requests = []\<rparr>"

definition setQuestion :: "question \<Rightarrow> app \<Rightarrow> app" where
  "setQuestion q s = s\<lparr>question := q, questionRef := q\<rparr>"

definition fetch :: "request \<Rightarrow> app \<Rightarrow> app" where
  "fetch r s = s\<lparr>requests := requests s @ [r]\<rparr>"

section \<open>The popup: operations\<close>

definition buildAuthHeaders :: "session_rec option \<Rightarrow> (string \<times> string) list" where
  "buildAuthHeaders sess =
     (case sess of
        None \<Rightarrow> []
      | Some x \<Rightarrow>
          if truthy (sessionId x) \<and> truthy (authToken x)
          then [(''X-Session-ID'', key_of (sessionId x)), (''X-Session-Auth'', key_of (authToken x))]
          else [])"

text \<open>\<^verbatim>\<open>/https?:\/\/leetcode\.com\/problems\//i.test(url)\<close> on a string.\<close>

definition leetcode_re :: matcher where
  "leetcode_re = seqs [lit_ci ''http'', rep_greedy (\<lambda>c. to_lower c = CHR ''s'') 0 (Some 1),
                       lit_ci ''://leetcode.com/problems/'']"

definition isLeetCodeQuestionUrl :: "string option \<Rightarrow> bool" where
  "isLeetCodeQuestionUrl url = (case url of None \<Rightarrow> False | Some u \<Rightarrow> regex_test leetcode_re u)"

text \<open>The request of \<open>ensureQuestionInitialized\<close>: \<open>POST /questions\<close> with the auth headers
  of \<open>{ sessionId, authToken }\<close> and the number and title (or \<open>null\<close>) as its body.\<close>

definition questions_request :: "string option \<Rightarrow> string option \<Rightarrow> nat \<Rightarrow> string \<Rightarrow> request" where
  "questions_request sid tok questionNumber questionTitle =
     \<lparr>r_verb = ''POST'', r_endpoint = Questions,
      r_headers = (''Content-Type'', ''application/json'')
         # buildAuthHeaders (Some \<lparr>sessionId = sid, sess_username = None, authToken = tok\<rparr>),
      r_body = QuestionBody questionNumber (if questionTitle = [] then None else Some questionTitle)\<rparr>"

text \<open>A thrown error is its message; \<open>None\<close> is a normal return.\<close>

definition ensureQuestionInitialized ::
    "fetch_result \<Rightarrow> nat \<Rightarrow> string option \<Rightarrow> string option \<Rightarrow> nat \<Rightarrow> string \<Rightarrow> app \<Rightarrow> app \<times> string option" where
  "ensureQuestionInitialized resp now sid tok questionNumber questionTitle s =
     (let initMap = stored_initialized s;
          sessionMap = (case initMap (key_of sid) of None \<Rightarrow> Map.empty | Some m \<Rightarrow> m)
      in
      if (case sessionMap questionNumber of None \<Rightarrow> False | Some t \<Rightarrow> 0 < t) then (s, None)
      else if truthy tok then
        (let s1 = fetch (questions_request sid tok questionNumber questionTitle) s in
         case resp of
           Rejected msg \<Rightarrow> (s1, Some msg)
         | Response ok js \<Rightarrow>
             (case js of
                BadJson msg \<Rightarrow> (s1, Some msg)
              | Json data \<Rightarrow>
                  if ok \<and> b_ok data \<noteq> Some False
                  then (s1\<lparr>stored_initialized :=
                             initMap(key_of sid \<mapsto> sessionMap(questionNumber \<mapsto> now))\<rparr>, None)
                  else (s1, Some (or_else (b_error data)
                                   (or_else (b_detail data) ''Backend rejected the question.'')))))
      else (s, Some ''Session auth token missing.''))"

definition hydrated :: "backend_msg list \<Rightarrow> message list" where
  "hydrated ms = map (\<lambda>(idx, m). \<lparr>role = m_role m, content = m_content m,
                                    mkey = Some (or_else (m_ts m) (m_role m @ ''-'' @ show_nat idx)),
                                    temp = False\<rparr>)
                     (zip [0..<length ms] ms)"

definition hydrateMessages :: "fetch_result \<Rightarrow> string option \<Rightarrow> string option \<Rightarrow> app \<Rightarrow> app \<times> string option" where
  "hydrateMessages resp sid tok s =
     (if truthy tok then
        (let s1 = fetch \<lparr>r_verb = ''GET'', r_endpoint = Whoami,
                          r_headers = buildAuthHeaders (Some \<lparr>sessionId = sid, sess_username = None, authToken = tok\<rparr>),
                          r_body = NoBody\<rparr> s
         in
         case resp of
           Rejected msg \<Rightarrow> (s1, Some msg)
         | Response ok js \<Rightarrow>
             if ok then
               (case js of
                  BadJson msg \<Rightarrow> (s1, Some msg)
                | Json data \<Rightarrow>
                    (case b_messages data of
                       None \<Rightarrow> (s1, None)
                     | Some ms \<Rightarrow> (s1\<lparr>messages := hydrated ms\<rparr>, None)))
             else (s1, Some ''Could not load session messages.''))
      else (s, Some ''Session auth token missing.''))"

definition initializeForQuestion ::
    "session_rec \<Rightarrow> nat \<Rightarrow> string \<Rightarrow> fetch_result \<Rightarrow> fetch_result \<Rightarrow> nat \<Rightarrow> app \<Rightarrow> app" where
  "initializeForQuestion sess questionNumber questionTitle q_resp who_resp now s =
     (let s0 = s\<lparr>status := ''Syncing question with backend...''\<rparr> in
      if truthy (authToken sess) then
        (case ensureQuestionInitialized q_resp now (sessionId sess) (authToken sess)
                questionNumber questionTitle s0 of
           (s1, Some err) \<Rightarrow> s1\<lparr>status := or_else (Some err) ''Failed to initialize question.''\<rparr>
         | (s1, None) \<Rightarrow>
             (case hydrateMessages who_resp (sessionId sess) (authToken sess) s1 of
                (s2, Some err) \<Rightarrow> s2\<lparr>status := or_else (Some err) ''Failed to initialize question.''\<rparr>
              | (s2, None) \<Rightarrow> s2\<lparr>status := []\<rparr>))
      else s0\<lparr>status := ''Missing session auth token. Reset the session.''\<rparr>)"

definition bootstrap ::
    "tab option \<Rightarrow> extract_result \<Rightarrow> fetch_result \<Rightarrow> fetch_result \<Rightarrow> nat \<Rightarrow> app \<Rightarrow> app \<times> question option outcome" where
  "bootstrap activeTab ext q_resp who_resp now s =
     (let storedSession = stored_session s;
          s1 = (case storedSession of
                  None \<Rightarrow> s
                | Some ss \<Rightarrow>
                    if truthy (sessionId ss) \<and> truthy (authToken ss)
                    then s\<lparr>session := Some ss, username := or_else (sess_username ss) []\<rparr>
                    else s\<lparr>stored_session := None\<rparr>)
      in
      case activeTab of
        None \<Rightarrow> (setQuestion (QError ''No active tab found.'') s1, Returned None)
      | Some tb \<Rightarrow>
          if isLeetCodeQuestionUrl (tab_url tb) then
            (let s2 = setQuestion QLoading s1 in
             case ext of
               ExtractThrew msg \<Rightarrow> (s2, Threw msg)
             | PageInfo pageInfo \<Rightarrow>
                 if pi_ok pageInfo \<and> truthy (pi_questionNumber pageInfo) then
                   (let normalized = QReady (Number_of (key_of (pi_questionNumber pageInfo)))
                          (or_else (pi_title pageInfo)
                             (''LeetCode Question #'' @ key_of (pi_questionNumber pageInfo)));
                        s3 = (setQuestion normalized s2)\<lparr>lastTabUrlRef := Some (tab_url tb)\<rparr>
                    in
                    case storedSession of
                      None \<Rightarrow> (s3, Returned (Some normalized))
                    | Some ss \<Rightarrow>
                        (initializeForQuestion ss (Number_of (key_of (pi_questionNumber pageInfo)))
                           (or_else (pi_title pageInfo)
                              (''LeetCode Question #'' @ key_of (pi_questionNumber pageInfo)))
                           q_resp who_resp now s3,
                         Returned (Some normalized)))
                 else (setQuestion (QError (or_else (pi_reason pageInfo)
                                     (''Couldn'' @ [CHR 0x27] @ ''t read question details.''))) s2,
                       Returned None))
          else (setQuestion QNotLeetCode s1, Returned None))"

text \<open>\<open>createSessionWithName\<close>; \<open>q_closure\<close> is the \<open>question\<close> of the render whose closure
  the function belongs to.\<close>

definition createSessionWithName ::
    "question \<Rightarrow> string \<Rightarrow> question option \<Rightarrow> fetch_result \<Rightarrow> fetch_result \<Rightarrow> fetch_result \<Rightarrow> nat \<Rightarrow> app \<Rightarrow> app" where
  "createSessionWithName q_closure name questionOverride c_resp q_resp who_resp now s =
     (let targetQuestion = (case questionOverride of None \<Rightarrow> q_closure | Some q \<Rightarrow> q);
          s1 = fetch \<lparr>r_verb = ''POST'', r_endpoint = CreateSession name, r_headers = [], r_body = NoBody\<rparr>
                 (s\<lparr>busy := True, status := ''Creating session...''\<rparr>);
          s2 = (case c_resp of
                  Rejected msg \<Rightarrow> s1\<lparr>status := or_else (Some msg) ''Session creation failed.''\<rparr>
                | Response ok js \<Rightarrow>
                    (case js of
                       BadJson msg \<Rightarrow> s1\<lparr>status := or_else (Some msg) ''Session creation failed.''\<rparr>
                     | Json data \<Rightarrow>
                         if ok \<and> b_ok data \<noteq> Some False then
                           (if truthy (b_auth_token data) then
                              (let newSession = \<lparr>sessionId = b_session_id data,
                                                 sess_username = Some (or_else (b_username data) name),
                                                 authToken = b_auth_token data\<rparr>;
                                   s3 = s1\<lparr>session := Some newSession, stored_session := Some newSession,
                                          messages := []\<rparr>;
                                   s4 = (case targetQuestion of
                                           QReady n t \<Rightarrow> initializeForQuestion newSession n t q_resp who_resp now s3
                                         | _ \<Rightarrow> s3)
                               in s4\<lparr>status := ''Session ready.''\<rparr>)
                            else s1\<lparr>status := ''Server did not return an auth token.''\<rparr>)
                         else s1\<lparr>status := or_else (b_error data)
                                    (or_else (b_detail data) ''Unable to create session.'')\<rparr>))
      in s2\<lparr>busy := False\<rparr>)"

definition handleCreateSession :: "fetch_result \<Rightarrow> fetch_result \<Rightarrow> fetch_result \<Rightarrow> nat \<Rightarrow> app \<Rightarrow> app" where
  "handleCreateSession c_resp q_resp who_resp now s =
     (if trim (username s) = [] then s
      else createSessionWithName (question s) (trim (username s)) None c_resp q_resp who_resp now s)"

definition handleSendMessage :: "fetch_result \<Rightarrow> fetch_result \<Rightarrow> app \<Rightarrow> app" where
  "handleSendMessage chat_resp who_resp s =
     (case session s of
        None \<Rightarrow> s
      | Some sess \<Rightarrow>
          if (case question s of QReady n t \<Rightarrow> False | _ \<Rightarrow> True) \<or> isSending s then s
          else if truthy (authToken sess) then
            (if trim (chatInput s) = [] then s
             else
               (let s1 = s\<lparr>chatInput := [], isSending := True,
                           messages := messages s @
                             [\<lparr>role = ''user'', content = trim (chatInput s), mkey = None, temp = False\<rparr>,
                              \<lparr>role = ''assistant'', content = ''Thinking...'', mkey = None, temp = True\<rparr>],
                           status := ''Sending message...''\<rparr>;
                    s2 = fetch \<lparr>r_verb = ''POST'', r_endpoint = Chat,
                                 r_headers = (''Content-Type'', ''application/json'') # buildAuthHeaders (Some sess),
                                 r_body = ChatBody (trim (chatInput s))\<rparr> s1;
                    res = (case chat_resp of
                             Rejected msg \<Rightarrow> (s2, Some msg)
                           | Response ok js \<Rightarrow>
                               (case js of
                                  BadJson msg \<Rightarrow> (s2, Some msg)
                                | Json data \<Rightarrow>
                                    if ok then
                                      (case hydrateMessages who_resp (sessionId sess) (authToken sess) s2 of
                                         (s3, Some err) \<Rightarrow> (s3, Some err)
                                       | (s3, None) \<Rightarrow> (s3\<lparr>status := []\<rparr>, None))
                                    else (s2, Some (or_else (b_detail data)
                                                     (or_else (b_error data) ''Chat request failed.'')))))
                in
                (case res of
                   (s4, None) \<Rightarrow> s4
                 | (s4, Some err) \<Rightarrow>
                     s4\<lparr>messages := filter (\<lambda>m. if temp m then False else True) (messages s4) @
                            [\<lparr>role = ''assistant'',
                              content = ''Error: '' @ or_else (Some err) ''Something went wrong'',
                              mkey = None, temp = False\<rparr>],
                        status := or_else (Some err) ''Could not send message.''\<rparr>)
                \<lparr>isSending := False\<rparr>))
          else s\<lparr>status := ''Session auth token missing. Reset the session.''\<rparr>)"

text \<open>The local cleanup that \<open>resetSession\<close> and \<open>handleReloadForNewQuestion\<close> share:
  the stored session is removed, and the session's entry of the initialized map, under the
  guard of the source.\<close>

definition clear_stored :: "session_rec option \<Rightarrow> app \<Rightarrow> app" where
  "clear_stored currentSession s =
     (let s1 = s\<lparr>stored_session := None\<rparr> in
      case currentSession of
        None \<Rightarrow> s1
      | Some cur \<Rightarrow>
          if truthy (sessionId cur) \<and> stored_initialized s1 (key_of (sessionId cur)) \<noteq> None
          then s1\<lparr>stored_initialized := (stored_initialized s1)(key_of (sessionId cur) := None)\<rparr>
          else s1)"

definition delete_request :: "session_rec \<Rightarrow> request" where
  "delete_request cur = \<lparr>r_verb = ''POST'', r_endpoint = DeleteSession,
                          r_headers = buildAuthHeaders (Some cur), r_body = NoBody\<rparr>"

definition resetSession :: "fetch_result \<Rightarrow> app \<Rightarrow> app" where
  "resetSession del_resp s =
     (let currentSession = session s;
          s0 = s\<lparr>busy := True, status := ''Resetting session...''\<rparr>;
          (s1, errorMessage) =
            (case currentSession of
               None \<Rightarrow> (s0, [])
             | Some cur \<Rightarrow>
                 (case del_resp of
                    Rejected msg \<Rightarrow> (fetch (delete_request cur) s0, or_else (Some msg) ''Failed to reset session.'')
                  | Response ok js \<Rightarrow>
                      if ok then (fetch (delete_request cur) s0, [])
                      else (fetch (delete_request cur) s0,
                            (case js of
                               BadJson msg \<Rightarrow> ''Failed to delete session.''
                             | Json data \<Rightarrow> or_else (b_detail data)
                                              (or_else (b_error data) ''Failed to delete session.'')))))
      in (clear_stored currentSession s1)\<lparr>session := None, messages := [], busy := False,
                                           status := errorMessage\<rparr>)"

text \<open>The \<open>normalized\<close> object of \<open>detectQuestionForTab\<close>.\<close>

definition detected :: "page_info \<Rightarrow> pending" where
  "detected pageInfo = \<lparr>pnumber = Number_of (key_of (pi_questionNumber pageInfo)),
                         ptitle = or_else (pi_title pageInfo)
                                    (''LeetCode Question #'' @ key_of (pi_questionNumber pageInfo))\<rparr>"

definition detectQuestionForTab :: "tab option \<Rightarrow> extract_result \<Rightarrow> app \<Rightarrow> app" where
  "detectQuestionForTab tb ext s =
     (case tb of
        None \<Rightarrow> s\<lparr>pendingQuestion := None\<rparr>
      | Some t \<Rightarrow>
          if isLeetCodeQuestionUrl (tab_url t) then
            (case ext of
               ExtractThrew msg \<Rightarrow> s
             | PageInfo pageInfo \<Rightarrow>
                 if pi_ok pageInfo \<and> truthy (pi_questionNumber pageInfo) then
                   (let normalized = detected pageInfo;
                        updated = s\<lparr>pendingQuestion :=
                                      (case pendingQuestion s of
                                         None \<Rightarrow> Some normalized
                                       | Some prev \<Rightarrow> if pnumber prev = pnumber normalized
                                                       then Some prev else Some normalized)\<rparr>
                    in
                    case questionRef s of
                      QReady n t \<Rightarrow> if n = pnumber normalized then s\<lparr>pendingQuestion := None\<rparr>
                                    else updated
                    | _ \<Rightarrow> updated)
                 else s\<lparr>pendingQuestion := None\<rparr>)
          else s\<lparr>pendingQuestion := None\<rparr>)"

text \<open>The two triggers of the detection: the poll (and \<open>onActivated\<close>), and \<open>onUpdated\<close>.\<close>

definition checkActiveTab :: "tab option \<Rightarrow> extract_result \<Rightarrow> app \<Rightarrow> app" where
  "checkActiveTab tb ext s =
     (case tb of
        None \<Rightarrow> s
      | Some t \<Rightarrow>
          if Some (tab_url t) = lastTabUrlRef s then s
          else detectQuestionForTab (Some t) ext (s\<lparr>lastTabUrlRef := Some (tab_url t)\<rparr>))"

definition handleUpdated :: "change_info \<Rightarrow> tab option \<Rightarrow> extract_result \<Rightarrow> app \<Rightarrow> app" where
  "handleUpdated changeInfo tb ext s =
     (if truthy (ci_url changeInfo) \<or> ci_status changeInfo = Some ''complete'' then
        detectQuestionForTab tb ext
          (s\<lparr>lastTabUrlRef :=
               (case tb of
                  None \<Rightarrow> lastTabUrlRef s
                | Some t \<Rightarrow> if truthy (tab_url t) then Some (tab_url t) else lastTabUrlRef s)\<rparr>)
      else s)"

definition handleReloadForNewQuestion ::
    "fetch_result \<Rightarrow> tab option \<Rightarrow> extract_result \<Rightarrow> fetch_result \<Rightarrow> fetch_result \<Rightarrow>
     fetch_result \<Rightarrow> fetch_result \<Rightarrow> fetch_result \<Rightarrow> nat \<Rightarrow> app \<Rightarrow> app" where
  "handleReloadForNewQuestion del_resp activeTab ext bq_resp bwho_resp c_resp q_resp who_resp now s =
     (let s0 = setQuestion QLoading (s\<lparr>refreshingQuestion := True, pendingQuestion := None\<rparr>);
          currentSession = session s;
          currentUsername = trim (username s);
          s1 = (case currentSession of
                  None \<Rightarrow> s0
                | Some cur \<Rightarrow>
                    (clear_stored currentSession (fetch (delete_request cur) s0))
                      \<lparr>session := None, messages := []\<rparr>)
      in
      case bootstrap activeTab ext bq_resp bwho_resp now s1 of
        (s2, Threw msg) \<Rightarrow> s2\<lparr>refreshingQuestion := False\<rparr>
      | (s2, Returned latestQuestion) \<Rightarrow>
          (if currentUsername = [] then s2
           else createSessionWithName (question s) currentUsername
                  (Some (case latestQuestion of None \<Rightarrow> question s | Some q \<Rightarrow> q))
                  c_resp q_resp who_resp now s2)
          \<lparr>refreshingQuestion := False\<rparr>)"

section \<open>The popup as a state machine\<close>

text \<open>
  \<open>mount\<close> is the popup opened and \<open>bootstrap\<close> run to its end before anything else
  happens.
\<close>

definition mount :: "session_rec option \<Rightarrow> (string \<Rightarrow> (nat \<Rightarrow> nat option) option) \<Rightarrow>
    tab option \<Rightarrow> extract_result \<Rightarrow> fetch_result \<Rightarrow> fetch_result \<Rightarrow> nat \<Rightarrow> app" where
  "mount st_session st_initialized activeTab ext q_resp who_resp now =
     fst (bootstrap activeTab ext q_resp who_resp now (initial_app st_session st_initialized))"

text \<open>
  An asynchronous function runs until it awaits; the rest of it runs when what it awaits
  has arrived, and other handlers run in between. The listeners and the poll are
  installed by an effect of the first render, next to the one that calls \<open>bootstrap\<close>, so
  a detection can run while \<open>bootstrap\<close> is suspended, at the mount and inside
  \<open>handleReloadForNewQuestion\<close>.

  \<open>bootstrap\<close> is cut in two. \<open>bootstrap_begin\<close> is the function from the stored session
  that \<open>readStorage\<close> gives to \<open>await extractQuestionFromTab\<close> (or to an earlier
  \<open>return null\<close>); it gives the active tab when it stops at that \<open>await\<close>. \<open>bootstrap_page\<close>
  is the function from there to its end. In the same way \<open>reload_begin\<close> is
  \<open>handleReloadForNewQuestion\<close> up to its call of \<open>bootstrap\<close>, and \<open>reload_end\<close> is what
  follows that call, from the result of \<open>bootstrap\<close> on.
\<close>

definition bootstrap_begin :: "session_rec option \<Rightarrow> tab option \<Rightarrow> app \<Rightarrow> app \<times> tab option" where
  "bootstrap_begin storedSession activeTab s =
     (let s1 = (case storedSession of
                  None \<Rightarrow> s
                | Some ss \<Rightarrow>
                    if truthy (sessionId ss) \<and> truthy (authToken ss)
                    then s\<lparr>session := Some ss, username := or_else (sess_username ss) []\<rparr>
                    else s\<lparr>stored_session := None\<rparr>)
      in
      case activeTab of
        None \<Rightarrow> (setQuestion (QError ''No active tab found.'') s1, None)
      | Some tb \<Rightarrow>
          if isLeetCodeQuestionUrl (tab_url tb) then (setQuestion QLoading s1, Some tb)
          else (setQuestion QNotLeetCode s1, None))"

definition bootstrap_page ::
    "session_rec option \<Rightarrow> tab \<Rightarrow> extract_result \<Rightarrow> fetch_result \<Rightarrow> fetch_result \<Rightarrow> nat \<Rightarrow> app
     \<Rightarrow> app \<times> question option outcome" where
  "bootstrap_page storedSession tb ext q_resp who_resp now s2 =
     (case ext of
        ExtractThrew msg \<Rightarrow> (s2, Threw msg)
      | PageInfo pageInfo \<Rightarrow>
          if pi_ok pageInfo \<and> truthy (pi_questionNumber pageInfo) then
            (let normalized = QReady (Number_of (key_of (pi_questionNumber pageInfo)))
                   (or_else (pi_title pageInfo)
                      (''LeetCode Question #'' @ key_of (pi_questionNumber pageInfo)));
                 s3 = (setQuestion normalized s2)\<lparr>lastTabUrlRef := Some (tab_url tb)\<rparr>
             in
             case storedSession of
               None \<Rightarrow> (s3, Returned (Some normalized))
             | Some ss \<Rightarrow>
                 (initializeForQuestion ss (Number_of (key_of (pi_questionNumber pageInfo)))
                    (or_else (pi_title pageInfo)
                       (''LeetCode Question #'' @ key_of (pi_questionNumber pageInfo)))
                    q_resp who_resp now s3,
                  Returned (Some normalized)))
          else (setQuestion (QError (or_else (pi_reason pageInfo)
                              (''Couldn'' @ [CHR 0x27] @ ''t read question details.''))) s2,
                Returned None))"

definition reload_begin :: "fetch_result \<Rightarrow> app \<Rightarrow> app" where
  "reload_begin del_resp s =
     (let s0 = setQuestion QLoading (s\<lparr>refreshingQuestion := True, pendingQuestion := None\<rparr>)
      in
      case session s of
        None \<Rightarrow> s0
      | Some cur \<Rightarrow>
          (clear_stored (session s) (fetch (delete_request cur) s0))\<lparr>session := None, messages := []\<rparr>)"

definition reload_end ::
    "string \<Rightarrow> question \<Rightarrow> app \<times> question option outcome \<Rightarrow> fetch_result \<Rightarrow> fetch_result \<Rightarrow>
     fetch_result \<Rightarrow> nat \<Rightarrow> app" where
  "reload_end currentUsername q_closure res c_resp q_resp who_resp now =
     (case res of
        (s2, Threw msg) \<Rightarrow> s2\<lparr>refreshingQuestion := False\<rparr>
      | (s2, Returned latestQuestion) \<Rightarrow>
          (if currentUsername = [] then s2
           else createSessionWithName q_closure currentUsername
                  (Some (case latestQuestion of None \<Rightarrow> q_closure | Some q \<Rightarrow> q))
                  c_resp q_resp who_resp now s2)
          \<lparr>refreshingQuestion := False\<rparr>)"

text \<open>
  A suspended call of \<open>bootstrap\<close>: where it waits, its caller, and its local variables. It
  waits for the active tab (the stored session was read from the storage as it was at the
  call), or for the page, with the stored session and the active tab in hand. The caller is
  the mount effect, which drops the result, or \<open>handleReloadForNewQuestion\<close>, which goes
  on with the \<open>currentUsername\<close> and the \<open>question\<close> of its closure.
\<close>

datatype caller = Mount | Reload string question

datatype task =
    AtStorage caller "session_rec option"
  | AtPage caller "session_rec option" tab

record popup =
  app_state :: app
  suspended :: "task list"

fun finish :: "caller \<Rightarrow> app \<times> question option outcome \<Rightarrow> fetch_result \<Rightarrow> fetch_result \<Rightarrow>
    fetch_result \<Rightarrow> nat \<Rightarrow> app" where
  "finish Mount res c_resp q_resp who_resp now = fst res"
| "finish (Reload currentUsername q_closure) res c_resp q_resp who_resp now =
     reload_end currentUsername q_closure res c_resp q_resp who_resp now"

text \<open>
  The events: the poll, a tab update, the user's actions, and the arrival of what the
  \<open>k\<close>-th suspended call waits for (the active tab, the page). An arrival for a call that
  is not there, or that waits for something else, changes nothing. Every transition is a
  stretch of the source between two awaits, or several of them run with nothing in
  between, so every trace of the machine is a trace of the popup; the user's events are
  accepted in every state, whatever the interface shows.
\<close>

datatype event =
    TabPolled "tab option" extract_result
  | TabUpdated change_info "tab option" extract_result
  | ReloadClicked fetch_result
  | ActiveTabRead nat "tab option" fetch_result fetch_result fetch_result nat
  | PageRead nat extract_result fetch_result fetch_result fetch_result fetch_result fetch_result nat
  | CreateSubmitted fetch_result fetch_result fetch_result nat
  | ResetClicked fetch_result
  | SendSubmitted fetch_result fetch_result
  | UsernameTyped string
  | ChatTyped string

fun step :: "popup \<Rightarrow> event \<Rightarrow> popup" where
  "step p (TabPolled tb ext) = p\<lparr>app_state := checkActiveTab tb ext (app_state p)\<rparr>"
| "step p (TabUpdated ci tb ext) = p\<lparr>app_state := handleUpdated ci tb ext (app_state p)\<rparr>"
| "step p (ReloadClicked d) =
     \<lparr>app_state = reload_begin d (app_state p),
      suspended = suspended p @
        [AtStorage (Reload (trim (username (app_state p))) (question (app_state p)))
           (stored_session (reload_begin d (app_state p)))]\<rparr>"
| "step p (ActiveTabRead k activeTab c q w now) =
     (if k < length (suspended p) then
        (case suspended p ! k of
           AtStorage cl storedSession \<Rightarrow>
             (case bootstrap_begin storedSession activeTab (app_state p) of
                (s1, None) \<Rightarrow>
                  \<lparr>app_state = finish cl (s1, Returned None) c q w now,
                   suspended = take k (suspended p) @ drop (Suc k) (suspended p)\<rparr>
              | (s2, Some tb) \<Rightarrow>
                  \<lparr>app_state = s2, suspended = (suspended p)[k := AtPage cl storedSession tb]\<rparr>)
         | AtPage cl storedSession tb \<Rightarrow> p)
      else p)"
| "step p (PageRead k ext bq bw c q w now) =
     (if k < length (suspended p) then
        (case suspended p ! k of
           AtStorage cl storedSession \<Rightarrow> p
         | AtPage cl storedSession tb \<Rightarrow>
             \<lparr>app_state = finish cl (bootstrap_page storedSession tb ext bq bw now (app_state p)) c q w now,
              suspended = take k (suspended p) @ drop (Suc k) (suspended p)\<rparr>)
      else p)"
| "step p (CreateSubmitted c q w now) = p\<lparr>app_state := handleCreateSession c q w now (app_state p)\<rparr>"
| "step p (ResetClicked d) = p\<lparr>app_state := resetSession d (app_state p)\<rparr>"
| "step p (SendSubmitted c w) = p\<lparr>app_state := handleSendMessage c w (app_state p)\<rparr>"
| "step p (UsernameTyped u) = p\<lparr>app_state := (app_state p)\<lparr>username := u\<rparr>\<rparr>"
| "step p (ChatTyped c) = p\<lparr>app_state := (app_state p)\<lparr>chatInput := c\<rparr>\<rparr>"

text \<open>The popup just opened: the initial state, and the call of \<open>bootstrap\<close> by the mount
  effect, which has read the stored session.\<close>

definition opened :: "session_rec option \<Rightarrow> (string \<Rightarrow> (nat \<Rightarrow> nat option) option) \<Rightarrow> popup" where
  "opened st_session st_initialized =
     \<lparr>app_state = initial_app st_session st_initialized, suspended = [AtStorage Mount st_session]\<rparr>"

definition run :: "popup \<Rightarrow> event list \<Rightarrow> popup" where
  "run p evs = foldl step p evs"

text \<open>The invariant of the pending question: while it is set and the question is ready,
  their numbers differ.\<close>

definition pending_differs :: "app \<Rightarrow> bool" where
  "pending_differs s =
     (case pendingQuestion s of
        None \<Rightarrow> True
      | Some p \<Rightarrow> (case question s of QReady n t \<Rightarrow> pnumber p \<noteq> n | _ \<Rightarrow> True))"

section \<open>Predicates and inputs of the statements\<close>

text \<open>Two states agree on the question, its ref and the pending question.\<close>

definition same_question :: "app \<Rightarrow> app \<Rightarrow> bool" where
  "same_question s s' = (pendingQuestion s' = pendingQuestion s \<and> question s' = question s
      \<and> questionRef s' = questionRef s)"

definition sync_inv :: "app \<Rightarrow> bool" where
  "sync_inv s = (questionRef s = question s \<and> pending_differs s)"

text \<open>The pair is recorded in the initialized map (with a truthy timestamp); the backend
  accepted a registration (the response that \<open>ensureQuestionInitialized\<close> does not throw on).\<close>

definition registered :: "app \<Rightarrow> string option \<Rightarrow> nat \<Rightarrow> bool" where
  "registered s sid questionNumber =
     (case stored_initialized s (key_of sid) of
        None \<Rightarrow> False
      | Some m \<Rightarrow> (case m questionNumber of None \<Rightarrow> False | Some t \<Rightarrow> 0 < t))"

definition accepted :: "fetch_result \<Rightarrow> bool" where
  "accepted resp = (case resp of
       Rejected msg \<Rightarrow> False
     | Response ok js \<Rightarrow> (case js of BadJson msg \<Rightarrow> False | Json data \<Rightarrow> ok \<and> b_ok data \<noteq> Some False))"

text \<open>A character that no pass of the renderer acts on, wherever it stands in a line
  that does not start with it: not one of \<open>& < > " '\<close>, of \<open>* _ [\<close> and the backtick,
  and not a line terminator.\<close>

definition plain_char :: "char \<Rightarrow> bool" where
  "plain_char c = (c \<notin> set ''&<>*_[`'' \<and> c \<noteq> CHR 0x22 \<and> c \<noteq> CHR 0x27
     \<and> c \<noteq> CHR 0x0A \<and> c \<noteq> CHR 0x0D)"

text \<open>No two adjacent asterisks, and no asterisk at the end.\<close>

fun star_sep :: "string \<Rightarrow> bool" where
  "star_sep [] = True"
| "star_sep [x] = (x \<noteq> CHR ''*'')"
| "star_sep (x # y # r) = ((x \<noteq> CHR ''*'' \<or> y \<noteq> CHR ''*'') \<and> star_sep (y # r))"

text \<open>
  An ordered-list line is a number, a dot, white space within the line, and a text.
  \<open>list_item_ok\<close>: the number is a non-empty string of digits, the white space is not
  empty, and the text is not empty, made of plain characters, and neither starts nor ends
  with white space. \<open>join_lines\<close> puts one line feed between the lines.
\<close>

definition ol_line :: "string \<times> string \<times> string \<Rightarrow> string" where
  "ol_line it = (case it of (num, sp, txt) \<Rightarrow> num @ ''.'' @ sp @ txt)"

definition item_text :: "string \<times> string \<times> string \<Rightarrow> string" where
  "item_text it = (case it of (num, sp, txt) \<Rightarrow> txt)"

definition list_item_ok :: "string \<times> string \<times> string \<Rightarrow> bool" where
  "list_item_ok it = (case it of (num, sp, txt) \<Rightarrow>
     num \<noteq> [] \<and> list_all is_digit num
     \<and> sp \<noteq> [] \<and> list_all (\<lambda>x. is_space x \<and> is_dot x) sp
     \<and> txt \<noteq> [] \<and> list_all plain_char txt \<and> is_space (hd txt) = False \<and> is_space (last txt) = False)"

fun join_lines :: "string list \<Rightarrow> string" where
  "join_lines [] = []"
| "join_lines [l] = l"
| "join_lines (l # l' # ls) = l @ CHR 0x0A # join_lines (l' # ls)"

text \<open>Lines that start with a digit and hold no line terminator.\<close>

definition digit_line :: "string \<Rightarrow> bool" where
  "digit_line l = (case l of [] \<Rightarrow> False | d # r \<Rightarrow> is_digit d \<and> (\<forall>x\<in>set (d # r). \<not> is_line_terminator x))"

text \<open>Concrete inputs.\<close>

definition empty_body :: body where
  "empty_body = \<lparr>b_ok = None, b_error = None, b_detail = None, b_session_id = None,
                  b_username = None, b_auth_token = None, b_messages = None\<rparr>"

definition problem_tab :: tab where
  "problem_tab = \<lparr>tab_id = 7, tab_url = Some ''https://leetcode.com/problems/letter-combinations/''\<rparr>"

definition rain_tab :: tab where
  "rain_tab = \<lparr>tab_id = 7, tab_url = Some ''https://leetcode.com/problems/trapping-rain-water/''\<rparr>"

definition page_17 :: page_info where
  "page_17 = \<lparr>pi_ok = True, pi_questionNumber = Some ''17'',
               pi_title = Some ''17. Letter Combinations of a Phone Number'', pi_reason = None\<rparr>"

definition page_42 :: page_info where
  "page_42 = \<lparr>pi_ok = True, pi_questionNumber = Some ''42'',
               pi_title = Some ''42. Trapping Rain Water'', pi_reason = None\<rparr>"

definition ready_17 :: app where
  "ready_17 = mount None Map.empty (Some problem_tab) (PageInfo page_17)
                (Rejected ''offline'') (Rejected ''offline'') 1"

text \<open>The tab is reported as complete; the traces in which a detection runs before
  \<open>bootstrap\<close> is resumed, between its two halves, and inside a reload (after the popup
  was mounted on a page that is not a question, with the pending question of a poll).\<close>

definition tab_complete :: change_info where
  "tab_complete = \<lparr>ci_url = None, ci_status = Some ''complete''\<rparr>"

definition detect_then_boot :: "event list" where
  "detect_then_boot =
     [TabUpdated tab_complete (Some problem_tab) (PageInfo page_17),
      ActiveTabRead 0 (Some problem_tab) (Rejected ''offline'') (Rejected ''offline'') (Rejected ''offline'') 1,
      PageRead 0 (PageInfo page_17) (Rejected ''offline'') (Rejected ''offline'')
        (Rejected ''offline'') (Rejected ''offline'') (Rejected ''offline'') 1]"

definition detect_within_boot :: "event list" where
  "detect_within_boot =
     [ActiveTabRead 0 (Some problem_tab) (Rejected ''offline'') (Rejected ''offline'') (Rejected ''offline'') 1,
      TabUpdated tab_complete (Some problem_tab) (PageInfo page_17),
      PageRead 0 (PageInfo page_17) (Rejected ''offline'') (Rejected ''offline'')
        (Rejected ''offline'') (Rejected ''offline'') (Rejected ''offline'') 1]"

definition detect_within_reload :: "event list" where
  "detect_within_reload =
     [ActiveTabRead 0 (Some \<lparr>tab_id = 7, tab_url = Some ''https://leetcode.com/problemset/''\<rparr>)
        (Rejected ''offline'') (Rejected ''offline'') (Rejected ''offline'') 1,
      TabPolled (Some problem_tab) (PageInfo page_17),
      ReloadClicked (Rejected ''offline''),
      ActiveTabRead 0 (Some problem_tab) (Rejected ''offline'') (Rejected ''offline'') (Rejected ''offline'') 2,
      TabUpdated tab_complete (Some problem_tab) (PageInfo page_17),
      PageRead 0 (PageInfo page_17) (Rejected ''offline'') (Rejected ''offline'')
        (Rejected ''offline'') (Rejected ''offline'') (Rejected ''offline'') 2]"

section \<open>The synchronization state machine: proofs\<close>

subsection \<open>Numbers\<close>

text \<open>\<open>Number\<close> keeps a question number as it is written up to \<open>2^53\<close>, and rounds above it:
  \<open>2^53 + 1\<close> goes down to \<open>2^53\<close>, \<open>2^53 + 3\<close> goes up to \<open>2^53 + 4\<close>.\<close>

lemma Number_of_rounds:
  "Number_of ''17'' = 17
   \<and> Number_of ''9007199254740991'' = 9007199254740991
   \<and> Number_of ''9007199254740993'' = 9007199254740992
   \<and> Number_of ''9007199254740995'' = 9007199254740996"
  by (simp add: Number_of_def digit_value_def to_double_def Let_def bit_length.simps [of "numeral n" for n])

subsection \<open>What the handlers leave as it is\<close>

lemma same_question_refl: "same_question s s"
  by (simp add: same_question_def)

lemma same_question_trans: "same_question s s1 \<Longrightarrow> same_question s1 s2 \<Longrightarrow> same_question s s2"
  by (simp add: same_question_def)

lemma ensure_same:
  "same_question s (fst (ensureQuestionInitialized resp now sid tok qn qt s))"
  by (simp add: same_question_def ensureQuestionInitialized_def fetch_def Let_def
           split: fetch_result.split json_result.split option.split)

lemma hydrate_same:
  "same_question s (fst (hydrateMessages resp sid tok s))"
  by (simp add: same_question_def hydrateMessages_def fetch_def Let_def
           split: fetch_result.split json_result.split option.split)

lemma initialize_same:
  "same_question s (initializeForQuestion sess qn qt q w now s)"
proof -
  let ?s0 = "s\<lparr>status := ''Syncing question with backend...''\<rparr>"
  obtain s1 r1 where e: "ensureQuestionInitialized q now (sessionId sess) (authToken sess) qn qt ?s0 = (s1, r1)"
    by (cases "ensureQuestionInitialized q now (sessionId sess) (authToken sess) qn qt ?s0")
  obtain s2 r2 where h: "hydrateMessages w (sessionId sess) (authToken sess) s1 = (s2, r2)"
    by (cases "hydrateMessages w (sessionId sess) (authToken sess) s1")
  have f1: "same_question ?s0 s1"
    using ensure_same [of ?s0 q now "sessionId sess" "authToken sess" qn qt] e by simp
  have f2: "same_question s1 s2"
    using hydrate_same [of s1 w "sessionId sess" "authToken sess"] h by simp
  show ?thesis
    using f1 f2 by (simp add: initializeForQuestion_def Let_def e h same_question_def split: option.split)
qed

lemma create_same:
  "same_question s (createSessionWithName qc name qo c q w now s)"
proof -
  have "\<And>sess n t s'. same_question s s' \<Longrightarrow> same_question s (initializeForQuestion sess n t q w now s')"
    using initialize_same same_question_trans by blast
  then have i: "\<And>sess n t s'. same_question s s' \<Longrightarrow>
      pendingQuestion (initializeForQuestion sess n t q w now s') = pendingQuestion s \<and>
      question (initializeForQuestion sess n t q w now s') = question s \<and>
      questionRef (initializeForQuestion sess n t q w now s') = questionRef s"
    by (simp add: same_question_def)
  show ?thesis
    by (simp add: createSessionWithName_def Let_def fetch_def same_question_def i
          split: fetch_result.split json_result.split option.split question.split)
qed

lemma handleCreate_same:
  "same_question s (handleCreateSession c q w now s)"
  by (simp add: handleCreateSession_def create_same same_question_refl)

lemma clear_stored_same:
  "same_question s (clear_stored cur s)"
  by (simp add: clear_stored_def same_question_def Let_def split: option.split)

lemma reset_same:
  "same_question s (resetSession d s)"
proof -
  have c: "\<And>cur s'. pendingQuestion (clear_stored cur s') = pendingQuestion s' \<and>
      question (clear_stored cur s') = question s' \<and> questionRef (clear_stored cur s') = questionRef s'"
    using clear_stored_same by (simp add: same_question_def)
  show ?thesis
    by (simp add: resetSession_def Let_def fetch_def same_question_def c
          split: fetch_result.split json_result.split option.split prod.split)
qed

lemma send_same:
  "same_question s (handleSendMessage c w s)"
proof -
  note [simp] = hydrate_same [unfolded same_question_def]
  show ?thesis
    apply (simp add: handleSendMessage_def Let_def fetch_def same_question_def
          split: fetch_result.split json_result.split option.split prod.split question.split)
    apply (intro allI impI conjI)
    apply (auto simp: same_question_def split: prod.split option.split dest!: arg_cong[where f=fst])
    done
qed

lemma bootstrap_pending:
  "pendingQuestion (fst (bootstrap tb ext q w now s)) = pendingQuestion s"
proof -
  note [simp] = initialize_same [unfolded same_question_def]
  show ?thesis
    by (simp add: bootstrap_def Let_def setQuestion_def
          split: option.split extract_result.split)
qed

lemma bootstrap_ref:
  "questionRef (fst (bootstrap tb ext q w now s)) = question (fst (bootstrap tb ext q w now s))"
proof -
  note [simp] = initialize_same [unfolded same_question_def]
  show ?thesis
    by (simp add: bootstrap_def Let_def setQuestion_def
          split: option.split extract_result.split)
qed

lemma detect_question:
  "question (detectQuestionForTab tb ext s) = question s \<and>
   questionRef (detectQuestionForTab tb ext s) = questionRef s"
  by (simp add: detectQuestionForTab_def Let_def
        split: option.split extract_result.split question.split)

lemma detect_inv:
  "sync_inv s \<Longrightarrow> sync_inv (detectQuestionForTab tb ext s)"
  by (auto simp add: sync_inv_def pending_differs_def detectQuestionForTab_def Let_def
        split: option.splits extract_result.splits question.splits)

lemma same_inv:
  "same_question s s' \<Longrightarrow> sync_inv s \<Longrightarrow> sync_inv s'"
  by (auto simp add: same_question_def sync_inv_def pending_differs_def
        split: option.splits question.splits)

lemma reload_inv:
  "sync_inv (handleReloadForNewQuestion d tb ext bq bw c q w now s)"
proof -
  let ?s0 = "setQuestion QLoading (s\<lparr>refreshingQuestion := True, pendingQuestion := None\<rparr>)"
  let ?s1 = "case session s of None \<Rightarrow> ?s0
             | Some cur \<Rightarrow> (clear_stored (session s) (fetch (delete_request cur) ?s0))
                      \<lparr>session := None, messages := []\<rparr>"
  have p1: "pendingQuestion ?s1 = None"
    using clear_stored_same [unfolded same_question_def]
    by (simp add: setQuestion_def fetch_def split: option.split)
  obtain s2 out where b: "bootstrap tb ext bq bw now ?s1 = (s2, out)"
    by (cases "bootstrap tb ext bq bw now ?s1")
  have p2: "pendingQuestion s2 = None"
    using bootstrap_pending [of tb ext bq bw now ?s1] b p1 by simp
  have r2: "questionRef s2 = question s2"
    using bootstrap_ref [of tb ext bq bw now ?s1] b by simp
  have i2: "sync_inv s2"
    using p2 r2 by (simp add: sync_inv_def pending_differs_def)
  have i3: "\<And>qc n qo. sync_inv (createSessionWithName qc n qo c q w now s2)"
    using same_inv [OF create_same i2] .
  have f: "\<And>x. sync_inv x \<Longrightarrow> sync_inv (x\<lparr>refreshingQuestion := False\<rparr>)"
    by (simp add: sync_inv_def pending_differs_def split: option.splits question.splits)
  show ?thesis
    using b i2 i3 f
    by (simp add: handleReloadForNewQuestion_def Let_def split: outcome.split)
qed

subsection \<open>The cuts of bootstrap and of the reload\<close>

text \<open>
  The two halves of \<open>bootstrap\<close>, one after the other, are \<open>bootstrap\<close>; the reload is its
  beginning, \<open>bootstrap\<close>, and its end. So the traces in which a suspended call is resumed
  before anything else happens are the uninterrupted functions.
\<close>

lemma bootstrap_split:
  "bootstrap activeTab ext q w now s =
     (case bootstrap_begin (stored_session s) activeTab s of
        (s1, None) \<Rightarrow> (s1, Returned None)
      | (s2, Some tb) \<Rightarrow> bootstrap_page (stored_session s) tb ext q w now s2)"
  by (simp add: bootstrap_def bootstrap_begin_def bootstrap_page_def Let_def
        split: option.split extract_result.split)

lemma reload_split:
  "handleReloadForNewQuestion d tb ext bq bw c q w now s =
     reload_end (trim (username s)) (question s) (bootstrap tb ext bq bw now (reload_begin d s)) c q w now"
  by (simp add: handleReloadForNewQuestion_def reload_begin_def reload_end_def Let_def
        split: prod.split outcome.split)

lemma mount_trace:
  "app_state (run (opened ss si) [ActiveTabRead 0 tb c1 q1 w1 n1, PageRead 0 ext q w c2 q2 w2 now])
     = mount ss si tb ext q w now"
proof -
  have st: "stored_session (initial_app ss si) = ss"
    by (simp add: initial_app_def)
  obtain s1 r where b: "bootstrap_begin ss tb (initial_app ss si) = (s1, r)"
    by (cases "bootstrap_begin ss tb (initial_app ss si)")
  show ?thesis
    using b by (cases r) (simp_all add: run_def opened_def mount_def bootstrap_split st)
qed

lemma reload_trace:
  "app_state (run p [ReloadClicked d, ActiveTabRead (length (suspended p)) tb c q w now,
                      PageRead (length (suspended p)) ext bq bw c q w now])
     = handleReloadForNewQuestion d tb ext bq bw c q w now (app_state p)"
proof -
  let ?s = "reload_begin d (app_state p)"
  obtain s1 r where b: "bootstrap_begin (stored_session ?s) tb ?s = (s1, r)"
    by (cases "bootstrap_begin (stored_session ?s) tb ?s")
  show ?thesis
    using b by (cases r) (simp_all add: run_def reload_split bootstrap_split nth_append)
qed

text \<open>
  Every transition but the arrival of the page keeps the invariant: the detection, by
  comparing with the question of the ref; the reload, by clearing the pending question
  first; the first half of \<open>bootstrap\<close>, because it never makes the question ready; the
  others, because they touch neither the question nor the pending one. The second half of
  \<open>bootstrap\<close> makes the question ready and leaves the pending question as it is.
\<close>

lemma begin_inv:
  "questionRef (fst (bootstrap_begin ss tb s)) = question (fst (bootstrap_begin ss tb s))
   \<and> pendingQuestion (fst (bootstrap_begin ss tb s)) = pendingQuestion s
   \<and> (\<forall>n t. question (fst (bootstrap_begin ss tb s)) \<noteq> QReady n t)"
  by (simp add: bootstrap_begin_def Let_def setQuestion_def split: option.split)

lemma reload_end_same:
  "same_question s (reload_end name qc (s, Returned r) c q w now)"
  using create_same [of s qc name _ c q w now]
  by (simp add: reload_end_def same_question_def)

lemma step_inv:
  assumes i: "sync_inv (app_state p)"
    and e: "\<And>k ext bq bw c q w now. e \<noteq> PageRead k ext bq bw c q w now"
  shows "sync_inv (app_state (step p e))"
proof (cases e)
  case (TabPolled tb ext)
  have "\<And>u. sync_inv ((app_state p)\<lparr>lastTabUrlRef := u\<rparr>)"
    using i same_inv [of "app_state p"] by (simp add: same_question_def)
  then have "\<And>u tb'. sync_inv (detectQuestionForTab tb' ext ((app_state p)\<lparr>lastTabUrlRef := u\<rparr>))"
    by (rule detect_inv)
  then show ?thesis
    using i TabPolled by (simp add: checkActiveTab_def split: option.split)
next
  case (TabUpdated ci tb ext)
  have "\<And>u. sync_inv ((app_state p)\<lparr>lastTabUrlRef := u\<rparr>)"
    using i same_inv [of "app_state p"] by (simp add: same_question_def)
  then have "\<And>u tb'. sync_inv (detectQuestionForTab tb' ext ((app_state p)\<lparr>lastTabUrlRef := u\<rparr>))"
    by (rule detect_inv)
  then show ?thesis
    using i TabUpdated by (simp add: handleUpdated_def)
next
  case (ReloadClicked d)
  have "pendingQuestion (reload_begin d (app_state p)) = None
        \<and> questionRef (reload_begin d (app_state p)) = question (reload_begin d (app_state p))"
    using clear_stored_same [unfolded same_question_def]
    by (simp add: reload_begin_def Let_def setQuestion_def fetch_def split: option.split)
  then show ?thesis
    using ReloadClicked by (simp add: sync_inv_def pending_differs_def)
next
  case (ActiveTabRead k tb c q w now)
  show ?thesis
  proof (cases "k < length (suspended p)")
    case False
    then show ?thesis using i ActiveTabRead by simp
  next
    case True
    show ?thesis
    proof (cases "suspended p ! k")
      case (AtPage cl ss tb')
      then show ?thesis using i True ActiveTabRead by simp
    next
      case (AtStorage cl ss)
      obtain s1 r where b: "bootstrap_begin ss tb (app_state p) = (s1, r)"
        by (cases "bootstrap_begin ss tb (app_state p)")
      have s1: "sync_inv s1"
        using begin_inv [of ss tb "app_state p"] b
        by (simp add: sync_inv_def pending_differs_def split: option.split question.split)
      show ?thesis
      proof (cases r)
        case (Some tb')
        then show ?thesis using s1 b True AtStorage ActiveTabRead by simp
      next
        case None
        have "sync_inv (finish cl (s1, Returned None) c q w now)"
        proof (cases cl)
          case Mount
          then show ?thesis using s1 by simp
        next
          case (Reload name qc)
          then show ?thesis
            using same_inv [OF reload_end_same s1] by simp
        qed
        then show ?thesis using None b True AtStorage ActiveTabRead by simp
      qed
    qed
  qed
next
  case (PageRead k ext bq bw c q w now)
  then show ?thesis using e by simp
next
  case (CreateSubmitted c q w now)
  then show ?thesis
    using i same_inv [OF handleCreate_same] by simp
next
  case (ResetClicked d)
  then show ?thesis
    using i same_inv [OF reset_same] by simp
next
  case (SendSubmitted c w)
  then show ?thesis
    using i same_inv [OF send_same] by simp
next
  case (UsernameTyped u)
  then show ?thesis
    using i same_inv [of "app_state p" "(app_state p)\<lparr>username := u\<rparr>"] by (simp add: same_question_def)
next
  case (ChatTyped c)
  then show ?thesis
    using i same_inv [of "app_state p" "(app_state p)\<lparr>chatInput := c\<rparr>"] by (simp add: same_question_def)
qed

text \<open>
  C9. The popup is opened on the page of question 17. While \<open>bootstrap\<close> is suspended,
  \<open>chrome.tabs.onUpdated\<close> reports the tab as complete and the detection that it starts
  reads the page: the question of the ref is not ready, so the pending question is set to
  number 17. Then \<open>bootstrap\<close> gets the active tab and the page and makes question 17
  ready, and the pending question stays: it is set, the question is ready, and the
  numbers are equal. The same happens when the detection runs between the two halves of
  \<open>bootstrap\<close>, and inside a reload, which has cleared the pending question before. As an
  operation on states, \<open>bootstrap\<close> takes the state after the detection, where the
  invariant holds, to one where it does not.
\<close>

theorem pending_equals_ready:
  "question (app_state (run (opened None Map.empty) detect_then_boot))
     = QReady 17 ''17. Letter Combinations of a Phone Number''
   \<and> pendingQuestion (app_state (run (opened None Map.empty) detect_then_boot))
     = Some \<lparr>pnumber = 17, ptitle = ''17. Letter Combinations of a Phone Number''\<rparr>
   \<and> pending_differs (app_state (run (opened None Map.empty) detect_then_boot)) = False
   \<and> pending_differs (app_state (run (opened None Map.empty) detect_within_boot)) = False
   \<and> pending_differs (app_state (run (opened None Map.empty) detect_within_reload)) = False
   \<and> pending_differs (handleUpdated tab_complete (Some problem_tab) (PageInfo page_17)
        (initial_app None Map.empty)) = True
   \<and> pending_differs (fst (bootstrap (Some problem_tab) (PageInfo page_17)
        (Rejected ''offline'') (Rejected ''offline'') 1
        (handleUpdated tab_complete (Some problem_tab) (PageInfo page_17)
           (initial_app None Map.empty)))) = False"
  by code_simp

text \<open>
  C10. Whatever the tab and the outcome of the extraction (no tab, another site, a failed
  extraction, a thrown error, the same number, another number), \<open>detectQuestionForTab\<close>
  changes at most \<open>pendingQuestion\<close>: the question, the session, the transcript, the two
  storage entries and the request log are as before.
\<close>

theorem detect_frame:
  "detectQuestionForTab tb ext s = s\<lparr>pendingQuestion := pendingQuestion (detectQuestionForTab tb ext s)\<rparr>
   \<and> question (detectQuestionForTab tb ext s) = question s
   \<and> session (detectQuestionForTab tb ext s) = session s
   \<and> messages (detectQuestionForTab tb ext s) = messages s
   \<and> stored_session (detectQuestionForTab tb ext s) = stored_session s
   \<and> stored_initialized (detectQuestionForTab tb ext s) = stored_initialized s
   \<and> requests (detectQuestionForTab tb ext s) = requests s"
  by (simp add: detectQuestionForTab_def Let_def
        split: option.split extract_result.split question.split)

text \<open>
  C3, as amended. Whatever the response to \<open>POST /delete_session\<close> (accepted, not ok, or
  a rejected fetch), after \<open>resetSession\<close> the session is null, the stored session is
  removed and the transcript is empty; the entry of the initialized map for the session's
  id is removed when that id is present and not empty.
\<close>

theorem reset_clears:
  "session (resetSession d s) = None \<and> stored_session (resetSession d s) = None
   \<and> messages (resetSession d s) = []
   \<and> (\<forall>cur. session s = Some cur \<longrightarrow> truthy (sessionId cur) \<longrightarrow>
         stored_initialized (resetSession d s) (key_of (sessionId cur)) = None)"
  by (simp add: resetSession_def clear_stored_def fetch_def Let_def
        split: fetch_result.split json_result.split option.split prod.split)


text \<open>
  The guard \<open>currentSession?.sessionId && ...\<close> skips the removal for a session whose id
  is the empty string: the entry under that key survives the reset.
\<close>

theorem reset_keeps_entry_of_empty_id:
  "stored_initialized
     (resetSession (Response True (Json empty_body))
        (ready_17\<lparr>session := Some \<lparr>sessionId = Some [], sess_username = Some ''bob'', authToken = Some ''tok''\<rparr>,
                   stored_initialized := [[] \<mapsto> [17 \<mapsto> 1]]\<rparr>)) []
   = Some [17 \<mapsto> 1]"
  by (simp add: resetSession_def clear_stored_def fetch_def Let_def truthy_def key_of_def)

theorem reset_clears_witness:
  "stored_initialized
     (resetSession (Rejected ''offline'')
        (ready_17\<lparr>session := Some \<lparr>sessionId = Some ''s1'', sess_username = Some ''bob'', authToken = Some ''tok''\<rparr>,
                   stored_initialized := [''s1'' \<mapsto> [17 \<mapsto> 1]]\<rparr>)) ''s1'' = None"
  using reset_clears [of "Rejected ''offline''"
      "ready_17\<lparr>session := Some \<lparr>sessionId = Some ''s1'', sess_username = Some ''bob'', authToken = Some ''tok''\<rparr>,
                   stored_initialized := [''s1'' \<mapsto> [17 \<mapsto> 1]]\<rparr>"]
  by (simp add: truthy_def key_of_def)

lemma detect_valid:
  assumes "isLeetCodeQuestionUrl (tab_url tb)" "pi_ok pageInfo" "truthy (pi_questionNumber pageInfo)"
  shows "detectQuestionForTab (Some tb) (PageInfo pageInfo) s =
     (case questionRef s of
        QReady n t \<Rightarrow> if n = pnumber (detected pageInfo) then s\<lparr>pendingQuestion := None\<rparr>
                      else s\<lparr>pendingQuestion :=
                               (case pendingQuestion s of
                                  None \<Rightarrow> Some (detected pageInfo)
                                | Some prev \<Rightarrow> if pnumber prev = pnumber (detected pageInfo)
                                                then Some prev else Some (detected pageInfo))\<rparr>
      | _ \<Rightarrow> s\<lparr>pendingQuestion :=
                               (case pendingQuestion s of
                                  None \<Rightarrow> Some (detected pageInfo)
                                | Some prev \<Rightarrow> if pnumber prev = pnumber (detected pageInfo)
                                                then Some prev else Some (detected pageInfo))\<rparr>)"
  using assms by (simp add: detectQuestionForTab_def Let_def split: question.split)

text \<open>
  C2. While a question is ready, a detection on a LeetCode question page with a number:
  if the number is the ready question's, the pending question is cleared; if it differs,
  the pending question becomes the detected number and title, unless a pending question of
  that number is already there, which is kept; and detecting that number again (from any
  tab, with any title) leaves the whole state as it is.
\<close>

theorem detect_pending:
  assumes ready: "question s = QReady n t" and ref: "questionRef s = question s"
    and url: "isLeetCodeQuestionUrl (tab_url tb)"
    and ok: "pi_ok pageInfo" and num: "truthy (pi_questionNumber pageInfo)"
  shows "(pnumber (detected pageInfo) = n \<longrightarrow>
            pendingQuestion (detectQuestionForTab (Some tb) (PageInfo pageInfo) s) = None)
       \<and> (pnumber (detected pageInfo) \<noteq> n \<longrightarrow>
            pendingQuestion (detectQuestionForTab (Some tb) (PageInfo pageInfo) s) =
              (case pendingQuestion s of
                 None \<Rightarrow> Some (detected pageInfo)
               | Some prev \<Rightarrow> if pnumber prev = pnumber (detected pageInfo) then pendingQuestion s
                               else Some (detected pageInfo))
          \<and> (\<forall>tb' pageInfo'.
                 isLeetCodeQuestionUrl (tab_url tb') \<and> pi_ok pageInfo' \<and> truthy (pi_questionNumber pageInfo')
                   \<and> pnumber (detected pageInfo') = pnumber (detected pageInfo) \<longrightarrow>
                 detectQuestionForTab (Some tb') (PageInfo pageInfo')
                     (detectQuestionForTab (Some tb) (PageInfo pageInfo) s)
                   = detectQuestionForTab (Some tb) (PageInfo pageInfo) s))"
proof -
  have q: "questionRef s = QReady n t"
    using ready ref by simp
  show ?thesis
    using q by (auto simp add: detect_valid [OF url ok num] detect_valid split: option.splits)
qed

theorem detect_pending_witness:
  "pendingQuestion (detectQuestionForTab (Some problem_tab) (PageInfo page_42) ready_17)
     = Some \<lparr>pnumber = 42, ptitle = ''42. Trapping Rain Water''\<rparr>
   \<and> detectQuestionForTab (Some problem_tab) (PageInfo page_42)
        (detectQuestionForTab (Some problem_tab) (PageInfo page_42) ready_17)
      = detectQuestionForTab (Some problem_tab) (PageInfo page_42) ready_17
   \<and> pendingQuestion (detectQuestionForTab (Some problem_tab) (PageInfo page_17)
        (detectQuestionForTab (Some problem_tab) (PageInfo page_42) ready_17)) = None"
proof -
  let ?s = "detectQuestionForTab (Some problem_tab) (PageInfo page_42) ready_17"
  have url: "isLeetCodeQuestionUrl (tab_url problem_tab)"
    by code_simp
  have q: "question ready_17 = QReady 17 ''17. Letter Combinations of a Phone Number''"
    by code_simp
  have r: "questionRef ready_17 = question ready_17"
    by code_simp
  have p: "pendingQuestion ready_17 = None"
    by code_simp
  have d42: "detected page_42 = \<lparr>pnumber = 42, ptitle = ''42. Trapping Rain Water''\<rparr>"
    by code_simp
  have d17: "pnumber (detected page_17) = 17"
    by code_simp
  have ok42: "pi_ok page_42" "truthy (pi_questionNumber page_42)"
    by code_simp+
  have ok17: "pi_ok page_17" "truthy (pi_questionNumber page_17)"
    by code_simp+
  have q': "question ?s = QReady 17 ''17. Letter Combinations of a Phone Number''"
    using detect_question [of "Some problem_tab" "PageInfo page_42" ready_17] q by simp
  have r': "questionRef ?s = question ?s"
    using detect_question [of "Some problem_tab" "PageInfo page_42" ready_17] r by simp
  show ?thesis
    using detect_pending [OF q r url ok42] detect_pending [OF q' r' url ok17] url ok42 p d42 d17
    by simp
qed


text \<open>
  When the first registration is not accepted, nothing is recorded, and the second
  invocation for the pair issues \<open>POST /questions\<close> again: two calls. Without an auth
  token both invocations throw before the call, and for a pair that is already recorded
  both return at once: no call. The recorded value is the time of the clock, and the test
  of the map entry is its truthiness: a pair recorded at time 0 counts as not recorded.
\<close>

theorem ensure_twice_after_rejection:
  "requests (fst (ensureQuestionInitialized (Response True (Json empty_body)) 9 (Some ''s1'') (Some ''tok'') 17 ''T''
      (fst (ensureQuestionInitialized (Rejected ''offline'') 5 (Some ''s1'') (Some ''tok'') 17 ''T'' ready_17))))
     = [\<lparr>r_verb = ''POST'', r_endpoint = Questions,
          r_headers = [(''Content-Type'', ''application/json''), (''X-Session-ID'', ''s1''),
                       (''X-Session-Auth'', ''tok'')],
          r_body = QuestionBody 17 (Some ''T'')\<rparr>,
        \<lparr>r_verb = ''POST'', r_endpoint = Questions,
          r_headers = [(''Content-Type'', ''application/json''), (''X-Session-ID'', ''s1''),
                       (''X-Session-Auth'', ''tok'')],
          r_body = QuestionBody 17 (Some ''T'')\<rparr>]
   \<and> requests (fst (ensureQuestionInitialized (Response True (Json empty_body)) 9 (Some ''s1'') None 17 ''T''
      (fst (ensureQuestionInitialized (Response True (Json empty_body)) 5 (Some ''s1'') None 17 ''T'' ready_17))))
     = []
   \<and> requests (fst (ensureQuestionInitialized (Response True (Json empty_body)) 9 (Some ''s1'') (Some ''tok'') 17 ''T''
      (fst (ensureQuestionInitialized (Response True (Json empty_body)) 5 (Some ''s1'') (Some ''tok'') 17 ''T''
         (ready_17\<lparr>stored_initialized := [''s1'' \<mapsto> [17 \<mapsto> 1]]\<rparr>)))))
     = []
   \<and> length (requests (fst (ensureQuestionInitialized (Response True (Json empty_body)) 9 (Some ''s1'') (Some ''tok'') 17 ''T''
      (fst (ensureQuestionInitialized (Response True (Json empty_body)) 0 (Some ''s1'') (Some ''tok'') 17 ''T''
         ready_17))))) = 2"
  by code_simp

text \<open>
  C4, as amended. For a pair \<open>(sessionId, questionNumber)\<close> that is not yet recorded, with
  an auth token, a first registration that the backend accepts and a clock after the epoch
  (the recorded timestamp is then truthy): the first \<open>ensureQuestionInitialized\<close> returns
  normally, issues exactly one request, which is \<open>POST /questions\<close> with the JSON content
  type, the auth headers and the number and title as its body, and records the pair; a
  second invocation for the pair, whatever its response, clock, token and title, returns
  with the state as it is, so the two invocations have issued that one request. When the
  first registration is not accepted, the call is issued all the same, the invocation
  throws, the initialized map is as before and the pair is still not recorded.
\<close>

theorem ensure_once:
  assumes tok: "truthy tok" and fresh: "\<not> registered s sid questionNumber"
    and acc: "accepted resp" and clock: "0 < now"
  shows "snd (ensureQuestionInitialized resp now sid tok questionNumber questionTitle s) = None
       \<and> requests (fst (ensureQuestionInitialized resp now sid tok questionNumber questionTitle s))
           = requests s @
             [\<lparr>r_verb = ''POST'', r_endpoint = Questions,
               r_headers = (''Content-Type'', ''application/json'') #
                 (if truthy sid then [(''X-Session-ID'', key_of sid), (''X-Session-Auth'', key_of tok)]
                  else []),
               r_body = QuestionBody questionNumber
                          (if questionTitle = [] then None else Some questionTitle)\<rparr>]
       \<and> registered (fst (ensureQuestionInitialized resp now sid tok questionNumber questionTitle s))
            sid questionNumber
       \<and> ensureQuestionInitialized resp' now' sid tok' questionNumber questionTitle'
            (fst (ensureQuestionInitialized resp now sid tok questionNumber questionTitle s))
           = (fst (ensureQuestionInitialized resp now sid tok questionNumber questionTitle s), None)
       \<and> requests (fst (ensureQuestionInitialized resp' now' sid tok' questionNumber questionTitle'
            (fst (ensureQuestionInitialized resp now sid tok questionNumber questionTitle s))))
           = requests s @
             [\<lparr>r_verb = ''POST'', r_endpoint = Questions,
               r_headers = (''Content-Type'', ''application/json'') #
                 (if truthy sid then [(''X-Session-ID'', key_of sid), (''X-Session-Auth'', key_of tok)]
                  else []),
               r_body = QuestionBody questionNumber
                          (if questionTitle = [] then None else Some questionTitle)\<rparr>]
       \<and> (\<forall>r. \<not> accepted r \<longrightarrow>
             snd (ensureQuestionInitialized r now sid tok questionNumber questionTitle s) \<noteq> None
             \<and> requests (fst (ensureQuestionInitialized r now sid tok questionNumber questionTitle s))
                 = requests s @
                   [\<lparr>r_verb = ''POST'', r_endpoint = Questions,
                     r_headers = (''Content-Type'', ''application/json'') #
                       (if truthy sid then [(''X-Session-ID'', key_of sid), (''X-Session-Auth'', key_of tok)]
                        else []),
                     r_body = QuestionBody questionNumber
                                (if questionTitle = [] then None else Some questionTitle)\<rparr>]
             \<and> stored_initialized (fst (ensureQuestionInitialized r now sid tok questionNumber questionTitle s))
                 = stored_initialized s
             \<and> \<not> registered (fst (ensureQuestionInitialized r now sid tok questionNumber questionTitle s))
                   sid questionNumber)"
proof -
  let ?req = "\<lparr>r_verb = ''POST'', r_endpoint = Questions,
               r_headers = (''Content-Type'', ''application/json'') #
                 (if truthy sid then [(''X-Session-ID'', key_of sid), (''X-Session-Auth'', key_of tok)]
                  else []),
               r_body = QuestionBody questionNumber
                          (if questionTitle = [] then None else Some questionTitle)\<rparr>"
  let ?q = "questions_request sid tok questionNumber questionTitle"
  let ?s1 = "(fetch ?q s)
         \<lparr>stored_initialized := (stored_initialized s)(key_of sid \<mapsto>
             (case stored_initialized s (key_of sid) of None \<Rightarrow> Map.empty | Some m \<Rightarrow> m)
               (questionNumber \<mapsto> now))\<rparr>"
  have req: "?q = ?req"
    using tok by (simp add: questions_request_def buildAuthHeaders_def)
  have already: "\<And>s0 r n k q. registered s0 sid questionNumber \<Longrightarrow>
      ensureQuestionInitialized r n sid k questionNumber q s0 = (s0, None)"
    by (simp add: ensureQuestionInitialized_def registered_def Let_def split: option.splits)
  have first: "ensureQuestionInitialized resp now sid tok questionNumber questionTitle s = (?s1, None)"
    using tok fresh acc
    by (auto simp add: ensureQuestionInitialized_def registered_def accepted_def Let_def
          split: option.splits fetch_result.splits json_result.splits)
  have reg: "registered ?s1 sid questionNumber"
    using clock by (simp add: registered_def)
  have rq1: "requests ?s1 = requests s @ [?req]"
    unfolding req by (simp add: fetch_def)
  have second: "ensureQuestionInitialized resp' now' sid tok' questionNumber questionTitle' ?s1 = (?s1, None)"
    by (rule already [OF reg])
  have nr: "(case (case stored_initialized s (key_of sid) of None \<Rightarrow> Map.empty | Some m \<Rightarrow> m) questionNumber of
               None \<Rightarrow> False | Some t \<Rightarrow> 0 < t) = False"
    using fresh by (simp add: registered_def split: option.splits)
  have rejected: "snd (ensureQuestionInitialized r now sid tok questionNumber questionTitle s) \<noteq> None
      \<and> fst (ensureQuestionInitialized r now sid tok questionNumber questionTitle s) = fetch ?q s"
    if na: "\<not> accepted r" for r
  proof (cases r)
    case (Rejected msg)
    then show ?thesis
      using tok nr by (simp add: ensureQuestionInitialized_def Let_def)
  next
    case (Response ok js)
    show ?thesis
    proof (cases js)
      case (BadJson msg)
      then show ?thesis
        using Response tok nr by (simp add: ensureQuestionInitialized_def Let_def)
    next
      case (Json data)
      then have "\<not> (ok \<and> b_ok data \<noteq> Some False)"
        using na Response by (simp add: accepted_def)
      then show ?thesis
        using Response Json tok nr by (simp add: ensureQuestionInitialized_def Let_def)
    qed
  qed
  have rq2: "requests (fetch ?q s) = requests s @ [?req]"
    unfolding req by (simp add: fetch_def)
  have st2: "stored_initialized (fetch ?q s) = stored_initialized s"
    by (simp add: fetch_def)
  have still: "\<not> registered (fetch ?q s) sid questionNumber"
    using fresh by (simp add: registered_def fetch_def)
  have c1: "snd (ensureQuestionInitialized resp now sid tok questionNumber questionTitle s) = None"
    by (simp add: first)
  have c2: "requests (fst (ensureQuestionInitialized resp now sid tok questionNumber questionTitle s))
      = requests s @ [?req]"
    unfolding first fst_conv by (rule rq1)
  have c3: "registered (fst (ensureQuestionInitialized resp now sid tok questionNumber questionTitle s))
      sid questionNumber"
    unfolding first fst_conv by (rule reg)
  have c4: "ensureQuestionInitialized resp' now' sid tok' questionNumber questionTitle'
            (fst (ensureQuestionInitialized resp now sid tok questionNumber questionTitle s))
           = (fst (ensureQuestionInitialized resp now sid tok questionNumber questionTitle s), None)"
    unfolding first fst_conv by (rule second)
  have c5: "requests (fst (ensureQuestionInitialized resp' now' sid tok' questionNumber questionTitle'
            (fst (ensureQuestionInitialized resp now sid tok questionNumber questionTitle s))))
      = requests s @ [?req]"
    unfolding c4 fst_conv by (rule c2)
  have c6: "\<forall>r. \<not> accepted r \<longrightarrow>
             snd (ensureQuestionInitialized r now sid tok questionNumber questionTitle s) \<noteq> None
             \<and> requests (fst (ensureQuestionInitialized r now sid tok questionNumber questionTitle s))
                 = requests s @ [?req]
             \<and> stored_initialized (fst (ensureQuestionInitialized r now sid tok questionNumber questionTitle s))
                 = stored_initialized s
             \<and> \<not> registered (fst (ensureQuestionInitialized r now sid tok questionNumber questionTitle s))
                   sid questionNumber"
  proof (intro allI impI)
    fix r assume "\<not> accepted r"
    from rejected [OF this] show "snd (ensureQuestionInitialized r now sid tok questionNumber questionTitle s) \<noteq> None
             \<and> requests (fst (ensureQuestionInitialized r now sid tok questionNumber questionTitle s))
                 = requests s @ [?req]
             \<and> stored_initialized (fst (ensureQuestionInitialized r now sid tok questionNumber questionTitle s))
                 = stored_initialized s
             \<and> \<not> registered (fst (ensureQuestionInitialized r now sid tok questionNumber questionTitle s))
                   sid questionNumber"
      using rq2 st2 still by simp
  qed
  show ?thesis
    by (intro conjI) (rule c1 c2 c3 c4 c5 c6)+
qed

theorem ensure_once_witness:
  "requests (fst (ensureQuestionInitialized (Response True (Json empty_body)) 9 (Some ''s1'') (Some ''tok'') 17 ''T''
      (fst (ensureQuestionInitialized (Response True (Json empty_body)) 5 (Some ''s1'') (Some ''tok'') 17 ''T''
         ready_17))))
     = [\<lparr>r_verb = ''POST'', r_endpoint = Questions,
          r_headers = [(''Content-Type'', ''application/json''), (''X-Session-ID'', ''s1''),
                       (''X-Session-Auth'', ''tok'')],
          r_body = QuestionBody 17 (Some ''T'')\<rparr>]"
proof -
  have tok: "truthy (Some ''tok'')"
    by code_simp
  have sid: "truthy (Some ''s1'')"
    by code_simp
  have fresh: "\<not> registered ready_17 (Some ''s1'') 17"
    by code_simp
  have acc: "accepted (Response True (Json empty_body))"
    by code_simp
  have clock: "0 < (5::nat)"
    by simp
  have none: "requests ready_17 = []"
    by code_simp
  show ?thesis
    using ensure_once [OF tok fresh acc clock, where questionTitle = "''T''"
        and resp' = "Response True (Json empty_body)" and now' = 9 and tok' = "Some ''tok''"
        and questionTitle' = "''T''"] none sid
    by (simp add: key_of_def)
qed

text \<open>
  With a token but no session id, \<open>hydrateMessages\<close> issues its \<open>GET /whoami\<close>, without
  the auth headers.
\<close>

theorem fetch_without_session_id:
  "requests (fst (hydrateMessages (Rejected ''offline'') None (Some ''tok'') ready_17))
     = [\<lparr>r_verb = ''GET'', r_endpoint = Whoami, r_headers = [], r_body = NoBody\<rparr>]"
  by code_simp

text \<open>
  C5, as amended. When the auth token is absent, question registration, the transcript
  fetch and the chat send issue no request and fail locally: \<open>ensureQuestionInitialized\<close>
  and \<open>hydrateMessages\<close> throw, \<open>initializeForQuestion\<close> reports the missing token, and
  \<open>handleSendMessage\<close> sends nothing.
\<close>

theorem no_token_no_fetch:
  assumes tok: "\<not> truthy tok"
  shows "requests (fst (ensureQuestionInitialized resp now sid tok questionNumber questionTitle s)) = requests s
       \<and> (\<not> registered s sid questionNumber \<longrightarrow>
            ensureQuestionInitialized resp now sid tok questionNumber questionTitle s
              = (s, Some ''Session auth token missing.''))
       \<and> hydrateMessages resp sid tok s = (s, Some ''Session auth token missing.'')
       \<and> (\<forall>sess. authToken sess = tok \<longrightarrow>
            requests (initializeForQuestion sess questionNumber questionTitle resp resp' now s) = requests s
            \<and> status (initializeForQuestion sess questionNumber questionTitle resp resp' now s)
                = ''Missing session auth token. Reset the session.'')
       \<and> (\<forall>sess. session s = Some sess \<and> authToken sess = tok \<longrightarrow>
            requests (handleSendMessage resp resp' s) = requests s
            \<and> messages (handleSendMessage resp resp' s) = messages s)"
  using tok
  by (auto simp add: ensureQuestionInitialized_def hydrateMessages_def initializeForQuestion_def
        handleSendMessage_def registered_def Let_def split: option.splits question.splits)

theorem no_token_no_fetch_witness:
  "hydrateMessages (Response True (Json empty_body)) (Some ''s1'') None ready_17
     = (ready_17, Some ''Session auth token missing.'')
   \<and> ensureQuestionInitialized (Response True (Json empty_body)) 5 (Some ''s1'') None 17 ''T'' ready_17
     = (ready_17, Some ''Session auth token missing.'')"
proof -
  have tok: "\<not> truthy None"
    by code_simp
  have fresh: "\<not> registered ready_17 (Some ''s1'') 17"
    by code_simp
  show ?thesis
    using no_token_no_fetch [OF tok, where resp = "Response True (Json empty_body)" and now = 5
        and sid = "Some ''s1''" and questionNumber = 17 and questionTitle = "''T''" and s = ready_17] fresh
    by simp
qed

section \<open>The renderer: proofs\<close>

subsection \<open>The fuel of a repeated group\<close>

text \<open>
  The fuel of \<open>plus_iter\<close> never decides a match: any two amounts above the length of the
  remaining input give the same result, for every group and every continuation.
\<close>

lemma plus_iter_fuel:
  "length td < n \<Longrightarrow> length td < n' \<Longrightarrow>
   plus_iter n m (MState sn td cp) k = plus_iter n' m (MState sn td cp) k"
proof (induction "length td" arbitrary: td n n' sn cp rule: less_induct)
  case less
  obtain a where n: "n = Suc a" using less.prems(1) by (cases n) auto
  obtain b where n': "n' = Suc b" using less.prems(2) by (cases n') auto
  have "again (length td) (\<lambda>st'. plus_iter a m st' k) k
        = again (length td) (\<lambda>st'. plus_iter b m st' k) k"
  proof (rule ext)
    fix st
    obtain sn' td' cp' where st: "st = MState sn' td' cp'" by (cases st) auto
    show "again (length td) (\<lambda>st'. plus_iter a m st' k) k st
          = again (length td) (\<lambda>st'. plus_iter b m st' k) k st"
    proof (cases "length td' < length td")
      case True
      then have "plus_iter a m (MState sn' td' cp') k = plus_iter b m (MState sn' td' cp') k"
        using less.prems n n' by (intro less.hyps) auto
      then show ?thesis by (simp add: st)
    next
      case False
      then show ?thesis by (simp add: st)
    qed
  qed
  then show ?case by (simp add: n n')
qed

subsection \<open>Scanning\<close>

lemma scan_none:
  "(\<And>u v. td = u @ v \<Longrightarrow> exec m (rev u @ sn) v = None) \<Longrightarrow> scan m sn td = map Chr td"
proof (induction td arbitrary: sn)
  case Nil
  have "exec m sn [] = None"
    using Nil [of "[]" "[]"] by simp
  then show ?case by simp
next
  case (Cons c cs)
  have here: "exec m sn (c # cs) = None"
    using Cons.prems [of "[]" "c # cs"] by simp
  have "\<And>u v. cs = u @ v \<Longrightarrow> exec m (rev u @ c # sn) v = None"
  proof -
    fix u v assume "cs = u @ v"
    then have "c # cs = (c # u) @ v" by simp
    from Cons.prems [OF this] show "exec m (rev u @ c # sn) v = None" by simp
  qed
  then have "scan m (c # sn) cs = map Chr cs"
    by (rule Cons.IH)
  then show ?case
    using here by simp
qed

lemma scan_skip:
  "(\<And>u v. pre = u @ v \<Longrightarrow> v \<noteq> [] \<Longrightarrow> exec m (rev u @ sn) (v @ rest) = None) \<Longrightarrow>
   scan m sn (pre @ rest) = map Chr pre @ scan m (rev pre @ sn) rest"
proof (induction pre arbitrary: sn)
  case Nil
  then show ?case by simp
next
  case (Cons c cs)
  have here: "exec m sn (c # cs @ rest) = None"
    using Cons.prems [of "[]" "c # cs"] by simp
  have "\<And>u v. cs = u @ v \<Longrightarrow> v \<noteq> [] \<Longrightarrow> exec m (rev u @ c # sn) (v @ rest) = None"
  proof -
    fix u v assume "cs = u @ v" and v: "v \<noteq> []"
    then have "c # cs = (c # u) @ v" by simp
    from Cons.prems [OF this v] show "exec m (rev u @ c # sn) (v @ rest) = None" by simp
  qed
  then have "scan m (c # sn) (cs @ rest) = map Chr cs @ scan m (rev cs @ c # sn) rest"
    by (rule Cons.IH)
  then show ?case
    using here by simp
qed

lemma scan_hit:
  assumes "exec m sn (mt @ rest) = Some st" and "todo st = rest" and "mt \<noteq> []"
  shows "scan m sn (mt @ rest) = Mtch mt (caps st) (rev sn) rest # scan m (rev mt @ sn) rest"
proof -
  obtain c cs where mt: "mt = c # cs"
    using assms(3) by (cases mt) auto
  show ?thesis
    using assms(1,2) by (simp add: mt Let_def)
qed

lemma render_chrs_app:
  "concat (map (render_piece f) (map Chr td @ ps)) = td @ concat (map (render_piece f) ps)"
  by (induction td) simp_all

lemma render_chrs:
  "concat (map (render_piece f) (map Chr td)) = td"
  using render_chrs_app [of f td "[]"] by simp

lemma render_mtch:
  "concat (map (render_piece f) (Mtch mt cp bf af # ps)) = f mt cp bf af @ concat (map (render_piece f) ps)"
  by simp

lemma replace_all_fn_none:
  "scan m [] td = map Chr td \<Longrightarrow> replace_all_fn m f td = td"
  by (simp only: replace_all_fn_def render_chrs)

lemma replace_all_tpl_none:
  "scan m [] td = map Chr td \<Longrightarrow> replace_all_tpl m n tpl td = td"
  by (simp only: replace_all_tpl_def render_chrs)

lemma caps_list_1: "caps_list 1 cp = [cap_of cp 1]"
  by (simp add: caps_list_def)

lemma caps_list_2: "caps_list 2 cp = [cap_of cp 1, cap_of cp 2]"
  by (simp add: caps_list_def upt_rec numeral_2_eq_2)

subsection \<open>Quantifiers\<close>

lemma greedy_max:
  "\<forall>x\<in>set u. p x \<Longrightarrow> (case v of [] \<Rightarrow> True | c # cs \<Rightarrow> \<not> p c) \<Longrightarrow> lo \<le> length u \<Longrightarrow>
   k (MState (rev u @ sn) v cp) = Some r \<Longrightarrow>
   rep_greedy_aux p lo None cp sn (u @ v) k = Some r"
proof (induction u arbitrary: lo sn)
  case Nil
  then show ?case by (cases v) simp_all
next
  case (Cons x u)
  have "rep_greedy_aux p (lo - 1) None cp (x # sn) (u @ v) k = Some r"
    using Cons.prems by (intro Cons.IH) auto
  then show ?case
    using Cons.prems(1) by (simp add: dec_def)
qed

lemma star_sep_tl: "star_sep (x # w) \<Longrightarrow> star_sep w"
  by (cases w) simp_all

lemma star_sep_head: "star_sep (x # w) \<Longrightarrow> \<not> (\<exists>r. x # w @ ''**'' @ rest = ''**'' @ r)"
  by (cases w) auto

lemma lazy_until_stars:
  assumes fails: "\<And>sn' td'. \<not> (\<exists>r. td' = ''**'' @ r) \<Longrightarrow> k (MState sn' td' cp) = None"
  shows "star_sep w \<Longrightarrow> \<forall>x\<in>set w. p x \<Longrightarrow>
    k (MState (rev w @ sn) (''**'' @ rest) cp) = Some r \<Longrightarrow>
    rep_lazy_aux p 0 None cp sn (w @ ''**'' @ rest) k = Some r"
proof (induction w arbitrary: sn)
  case Nil
  then show ?case by simp
next
  case (Cons x w)
  have "k (MState sn (x # w @ ''**'' @ rest) cp) = None"
    using fails star_sep_head [OF Cons.prems(1)] by blast
  moreover have "rep_lazy_aux p 0 None cp (x # sn) (w @ ''**'' @ rest) k = Some r"
    using Cons.prems star_sep_tl by (intro Cons.IH) auto
  ultimately show ?case
    using Cons.prems(2) by (simp add: dec_def)
qed

lemma scan_end:
  "exec m sn [] = None \<Longrightarrow> scan m sn [] = []"
  by simp

declare scan.simps [simp del]


lemma scan_first_char:
  assumes "\<And>sn. exec m sn [] = None" and "\<And>sn c cs. c \<in> set td \<Longrightarrow> exec m sn (c # cs) = None"
  shows "scan m sn td = map Chr td"
proof (rule scan_none)
  fix u v assume "td = u @ v"
  then show "exec m (rev u @ sn) v = None"
    using assms by (cases v) auto
qed

lemma scan_bol:
  assumes "\<forall>c\<in>set td. \<not> is_line_terminator c" and "exec (seqs (bol_m # ms)) [] td = None"
  shows "scan (seqs (bol_m # ms)) [] td = map Chr td"
proof (rule scan_none)
  fix u v assume td: "td = u @ v"
  show "exec (seqs (bol_m # ms)) (rev u @ []) v = None"
  proof (cases u rule: rev_cases)
    case Nil
    then show ?thesis using assms(2) td by simp
  next
    case (snoc us x)
    then have "\<not> is_line_terminator x"
      using assms(1) td by simp
    then show ?thesis
      using snoc by (simp add: exec_def)
  qed
qed

lemma fence_re_fails:
  "exec fence_re sn [] = None" "c \<noteq> CHR 0x60 \<Longrightarrow> exec fence_re sn (c # cs) = None"
  by (simp_all add: fence_re_def exec_def)

lemma inline_code_re_fails:
  "exec inline_code_re sn [] = None" "c \<noteq> CHR 0x60 \<Longrightarrow> exec inline_code_re sn (c # cs) = None"
  by (simp_all add: inline_code_re_def exec_def)

lemma bold_re_fails:
  "exec bold_re sn [] = None" "c \<noteq> CHR ''*'' \<Longrightarrow> exec bold_re sn (c # cs) = None"
  by (simp_all add: bold_re_def exec_def)

lemma italic_re_fails:
  "exec italic_re sn [] = None"
  "c \<noteq> CHR ''*'' \<Longrightarrow> c \<noteq> CHR ''_'' \<Longrightarrow> exec italic_re sn (c # cs) = None"
  by (simp_all add: italic_re_def exec_def)

lemma link_re_fails:
  "exec link_re sn [] = None" "c \<noteq> CHR ''['' \<Longrightarrow> exec link_re sn (c # cs) = None"
  by (simp_all add: link_re_def exec_def)

lemma extract_fences_chrs:
  "extract_fences (map Chr td) bl = (td, bl)"
  by (induction td) simp_all

lemma replace_char_absent:
  "c \<notin> set s \<Longrightarrow> replace_char c r s = s"
  by (induction s) (auto simp add: replace_char_def)

lemma escapeHtml_plain:
  "\<forall>c\<in>set s. c \<notin> set ''&<>'' \<and> c \<noteq> CHR 0x22 \<and> c \<noteq> CHR 0x27 \<Longrightarrow> escapeHtml s = s"
proof -
  assume a: "\<forall>c\<in>set s. c \<notin> set ''&<>'' \<and> c \<noteq> CHR 0x22 \<and> c \<noteq> CHR 0x27"
  have "CHR ''&'' \<notin> set s" "CHR ''<'' \<notin> set s" "CHR ''>'' \<notin> set s" "CHR 0x22 \<notin> set s" "CHR 0x27 \<notin> set s"
    using a by auto
  then show ?thesis
    by (simp add: escapeHtml_def replace_char_absent)
qed

lemma trim_id:
  "s \<noteq> [] \<Longrightarrow> \<not> is_space (hd s) \<Longrightarrow> \<not> is_space (last s) \<Longrightarrow> trim s = s"
proof -
  assume s: "s \<noteq> []" and h: "\<not> is_space (hd s)" and l: "\<not> is_space (last s)"
  have "dropWhile is_space (rev s) = rev s"
    using s l by (cases "rev s") (auto simp add: hd_rev [symmetric])
  then have "trimEnd s = s"
    by (simp add: trimEnd_def)
  moreover have "trimStart s = s"
    using s h by (cases s) (simp_all add: trimStart_def)
  ultimately show ?thesis
    by (simp add: trim_def)
qed

lemma regex_test_bos:
  "sn \<noteq> [] \<Longrightarrow> regex_test_from (seqs (bos # ms)) sn td = False"
proof (induction td arbitrary: sn)
  case Nil
  then show ?case by (cases sn) (simp_all add: exec_def)
next
  case (Cons c cs)
  then show ?case by (cases sn) (simp_all add: exec_def)
qed

lemma split_no_newline:
  "\<forall>c\<in>set td. c \<noteq> CHR 0x0A \<Longrightarrow> split_from blank_lines_re sn cur td = [rev cur @ td]"
proof (induction td arbitrary: sn cur)
  case Nil
  then show ?case by simp
next
  case (Cons c cs)
  have "exec blank_lines_re sn (c # cs) = None"
    using Cons.prems by (simp add: exec_def blank_lines_re_def)
  then show ?case
    using Cons by simp
qed

lemma tpl_strong:
  "get_substitution mt bf af [x] ''<strong>$1</strong>'' = ''<strong>'' @ x @ ''</strong>''"
  by (simp add: is_digit_def digit_value_def)

lemma tpl_em:
  "get_substitution mt bf af [x, y] ''<em>$2</em>'' = ''<em>'' @ y @ ''</em>''"
  by (simp add: is_digit_def digit_value_def)

lemma star_sep_free: "\<forall>x\<in>set u. x \<noteq> CHR ''*'' \<Longrightarrow> star_sep w \<Longrightarrow> star_sep (u @ w)"
proof (induction u)
  case Nil
  then show ?case by simp
next
  case (Cons x u)
  then have "star_sep (u @ w)" by simp
  then show ?case
    using Cons.prems(1) by (cases "u @ w") simp_all
qed

lemma star_sep_star: "w \<noteq> [] \<Longrightarrow> hd w \<noteq> CHR ''*'' \<Longrightarrow> star_sep w \<Longrightarrow> star_sep (CHR ''*'' # w)"
  by (cases w) simp_all

lemma star_sep_nested:
  assumes "\<forall>x\<in>set (a @ b @ c). x \<noteq> CHR ''*''" and "b \<noteq> []" and "c \<noteq> []"
  shows "star_sep (a @ ''*'' @ b @ ''*'' @ c)"
proof -
  have 1: "star_sep c"
    using star_sep_free [of c "[]"] assms(1) by simp
  have 2: "star_sep (CHR ''*'' # c)"
    using 1 assms by (intro star_sep_star) (auto simp add: hd_in_set)
  have 3: "star_sep (b @ CHR ''*'' # c)"
    using 2 assms(1) by (intro star_sep_free) auto
  have 4: "star_sep (CHR ''*'' # b @ CHR ''*'' # c)"
    using 3 assms by (intro star_sep_star) (auto simp add: hd_append hd_in_set)
  have 5: "star_sep (a @ CHR ''*'' # b @ CHR ''*'' # c)"
    using 4 assms(1) by (intro star_sep_free) auto
  then show ?thesis by simp
qed

lemma bold_close_fails:
  "\<not> (\<exists>r. td' = ''**'' @ r) \<Longrightarrow>
   set_cap i z (\<lambda>st'. seqs [lit ''**''] st' Some) (MState sn' td' cp) = None"
proof (cases td')
  case Nil
  then show ?thesis by simp
next
  case (Cons x xs)
  assume n: "\<not> (\<exists>r. td' = ''**'' @ r)"
  show ?thesis
  proof (cases xs)
    case Nil
    then show ?thesis using Cons by simp
  next
    case (Cons y ys)
    then show ?thesis using n \<open>td' = x # xs\<close> by auto
  qed
qed

lemma exec_bold:
  assumes sep: "star_sep w" and ne: "w \<noteq> []" and dots: "\<forall>x\<in>set w. is_dot x"
  shows "exec bold_re sn (''**'' @ w @ ''**'' @ rest)
           = Some (MState (rev (''**'' @ w @ ''**'') @ sn) rest [(1, w)])"
proof -
  obtain y w' where w: "w = y # w'"
    using ne by (cases w) auto
  let ?k = "set_cap 1 (w @ ''**'' @ rest) (\<lambda>st'. seqs [lit ''**''] st' Some)"
  have last: "?k (MState (rev w' @ y # CHR ''*'' # CHR ''*'' # sn) (''**'' @ rest) [])
      = Some (MState (rev (''**'' @ w @ ''**'') @ sn) rest [(1, w)])"
    by (simp add: w)
  have "rep_lazy_aux is_dot 0 None [] (y # CHR ''*'' # CHR ''*'' # sn) (w' @ ''**'' @ rest) ?k
      = Some (MState (rev (''**'' @ w @ ''**'') @ sn) rest [(1, w)])"
  proof (rule lazy_until_stars)
    show "\<And>sn' td'. \<not> (\<exists>r. td' = ''**'' @ r) \<Longrightarrow> ?k (MState sn' td' []) = None"
      by (rule bold_close_fails)
    show "star_sep w'" using sep w star_sep_tl by blast
    show "\<forall>x\<in>set w'. is_dot x" using dots w by simp
    show "?k (MState (rev w' @ y # CHR ''*'' # CHR ''*'' # sn) (''**'' @ rest) [])
      = Some (MState (rev (''**'' @ w @ ''**'') @ sn) rest [(1, w)])"
      by (rule last)
  qed
  moreover have "is_dot y" using dots w by simp
  ultimately show ?thesis
    by (simp add: bold_re_def exec_def w dec_def)
qed

lemma exec_italic:
  assumes ne: "b \<noteq> []" and inner: "\<forall>x\<in>set b. x \<noteq> CHR ''*'' \<and> x \<noteq> CHR ''_''"
  shows "exec italic_re sn (''*'' @ b @ ''*'' @ rest)
           = Some (MState (rev (''*'' @ b @ ''*'') @ sn) rest [(2, b), (1, ''*'')])"
proof -
  let ?p = "\<lambda>c. c \<noteq> CHR ''*'' \<and> c \<noteq> CHR ''_''"
  let ?k = "set_cap 2 (b @ ''*'' @ rest) (\<lambda>st'. seqs [backref 1] st' Some)"
  have "rep_greedy_aux ?p 1 None [(1, ''*'')] (CHR ''*'' # sn) (b @ (''*'' @ rest)) ?k
      = Some (MState (rev (''*'' @ b @ ''*'') @ sn) rest [(2, b), (1, ''*'')])"
  proof (rule greedy_max)
    show "\<forall>x\<in>set b. ?p x" using inner by simp
    show "case ''*'' @ rest of [] \<Rightarrow> True | c # cs \<Rightarrow> \<not> ?p c" by simp
    show "1 \<le> length b" using ne by (cases b) simp_all
    show "?k (MState (rev b @ CHR ''*'' # sn) (''*'' @ rest) [(1, ''*'')])
      = Some (MState (rev (''*'' @ b @ ''*'') @ sn) rest [(2, b), (1, ''*'')])"
      by (simp add: cap_of_def)
  qed
  then show ?thesis
    by (simp add: italic_re_def exec_def)
qed

lemma plain_charD:
  "plain_char x \<Longrightarrow> x \<noteq> CHR ''&'' \<and> x \<noteq> CHR ''<'' \<and> x \<noteq> CHR ''>'' \<and> x \<noteq> CHR ''*''
     \<and> x \<noteq> CHR ''_'' \<and> x \<noteq> CHR ''['' \<and> x \<noteq> CHR 0x60 \<and> x \<noteq> CHR 0x22 \<and> x \<noteq> CHR 0x27
     \<and> x \<noteq> CHR 0x0A \<and> x \<noteq> CHR 0x0D \<and> is_dot x \<and> \<not> is_line_terminator x"
  by (auto simp add: plain_char_def is_dot_def is_line_terminator_def)

lemma no_fences:
  assumes "\<forall>x\<in>set md. x \<noteq> CHR 0x60"
  shows "extract_fences (scan fence_re [] md) [] = (md, [])"
proof -
  have "scan fence_re [] md = map Chr md"
    using assms by (intro scan_first_char fence_re_fails) auto
  then show ?thesis
    by (simp add: extract_fences_chrs)
qed

lemma render_blocks_none:
  assumes lt: "\<forall>x\<in>set td. \<not> is_line_terminator x"
    and h: "exec heading_re [] td = None" and q: "exec blockquote_re [] td = None"
    and o: "exec ol_re [] td = None" and u: "exec ul_re [] td = None"
  shows "render_blocks td = td"
proof -
  have 1: "replace_all_fn heading_re heading_fn td = td"
    using lt h unfolding heading_re_def by (intro replace_all_fn_none scan_bol) simp_all
  have 2: "replace_all_tpl blockquote_re 1 ''<blockquote><p>$1</p></blockquote>'' td = td"
    using lt q unfolding blockquote_re_def by (intro replace_all_tpl_none scan_bol) simp_all
  have 3: "\<And>f. replace_all_fn ol_re f td = td"
    using lt o unfolding ol_re_def by (intro replace_all_fn_none scan_bol) simp_all
  have 4: "\<And>f. replace_all_fn ul_re f td = td"
    using lt u unfolding ul_re_def by (intro replace_all_fn_none scan_bol) simp_all
  show ?thesis
    unfolding render_blocks_def 1 2 3 4 by (rule refl)
qed

lemma wrap_single:
  assumes nl: "\<forall>x\<in>set td. x \<noteq> CHR 0x0A" and ne: "td \<noteq> []"
    and h: "\<not> is_space (hd td)" and l: "\<not> is_space (last td)"
    and t: "exec structural_re [] td = None"
  shows "wrap_paragraphs td = ''<p>'' @ td @ ''</p>''"
proof -
  obtain c cs where td: "td = c # cs"
    using ne by (cases td) auto
  have "regex_test_from structural_re [c] cs = False"
    unfolding structural_re_def by (rule regex_test_bos) simp
  then have "regex_test structural_re td = False"
    using t by (simp add: regex_test_def td)
  then show ?thesis
    using split_no_newline [OF nl, of "[]" "[]"] trim_id [OF ne h l] ne
    by (simp add: wrap_paragraphs_def split_re_def paragraph_block_def)
qed

text \<open>
  A span \<open>**a *b* c**\<close> that is the whole input, with plain text for \<open>a\<close>, \<open>b\<close>, \<open>c\<close> and
  \<open>b\<close> and \<open>c\<close> not empty: the renderer gives one strong element around the whole span
  with the em element of \<open>b\<close> inside it, in a paragraph. Bold is applied first, and the
  italic pass then finds only the inner pair of asterisks.
\<close>

lemma nested_emphasis:
  assumes plain: "\<forall>x\<in>set (a @ b @ c). plain_char x" and b: "b \<noteq> []" and c: "c \<noteq> []"
  shows "renderMarkdown (''**'' @ a @ ''*'' @ b @ ''*'' @ c @ ''**'')
           = ''<p><strong>'' @ a @ ''<em>'' @ b @ ''</em>'' @ c @ ''</strong></p>''"
proof -
  let ?T = "''**'' @ a @ ''*'' @ b @ ''*'' @ c @ ''**''"
  let ?X = "a @ ''*'' @ b @ ''*'' @ c"
  let ?S = "''<strong>'' @ a @ ''*'' @ b @ ''*'' @ c @ ''</strong>''"
  let ?R = "''<strong>'' @ a @ ''<em>'' @ b @ ''</em>'' @ c @ ''</strong>''"
  have pl: "\<And>x. x \<in> set a \<or> x \<in> set b \<or> x \<in> set c \<Longrightarrow> plain_char x"
    using plain by auto
  note pd = plain_charD [OF pl]
  have s1: "extract_fences (scan fence_re [] ?T) [] = (?T, [])"
    using pd by (intro no_fences) auto
  have s2: "escapeHtml ?T = ?T"
    using pd by (intro escapeHtml_plain) auto
  have s3: "render_blocks ?T = ?T"
  proof (rule render_blocks_none)
    show "\<forall>x\<in>set ?T. \<not> is_line_terminator x"
      using pd by (auto simp add: is_line_terminator_def)
    show "exec heading_re [] ?T = None" by (simp add: heading_re_def exec_def)
    show "exec blockquote_re [] ?T = None" by (simp add: blockquote_re_def exec_def)
    show "exec ol_re [] ?T = None" by (simp add: ol_re_def ol_item_def exec_def is_space_def is_digit_def)
    show "exec ul_re [] ?T = None" by (simp add: ul_re_def ul_item_def exec_def is_space_def is_bullet_def)
  qed
  have s4: "replace_all_fn inline_code_re inline_code_fn ?T = ?T"
    using pd by (intro replace_all_fn_none scan_first_char inline_code_re_fails) auto
  have sep: "star_sep ?X"
    using pd b c by (intro star_sep_nested) auto
  have "exec bold_re [] (''**'' @ ?X @ ''**'' @ []) = Some (MState (rev (''**'' @ ?X @ ''**'') @ []) [] [(1, ?X)])"
    using sep pd by (intro exec_bold) (auto simp add: is_dot_def is_line_terminator_def)
  then have "scan bold_re [] (?T @ []) = Mtch ?T [(1, ?X)] [] [] # scan bold_re (rev ?T @ []) []"
    using scan_hit [of bold_re "[]" ?T "[]"] by simp
  then have sb: "scan bold_re [] ?T = [Mtch ?T [(1, ?X)] [] []]"
    by (simp add: bold_re_fails scan_end)
  have s5: "replace_all_tpl bold_re 1 ''<strong>$1</strong>'' ?T = ?S"
    unfolding replace_all_tpl_def sb caps_list_1 tpl_strong render_mtch
    by (simp add: cap_of_def)
  have i1: "scan italic_re [] ((''<strong>'' @ a) @ (''*'' @ b @ ''*'' @ c @ ''</strong>''))
      = map Chr (''<strong>'' @ a) @ scan italic_re (rev (''<strong>'' @ a) @ []) (''*'' @ b @ ''*'' @ c @ ''</strong>'')"
  proof (rule scan_skip)
    fix u v assume uv: "''<strong>'' @ a = u @ v" and v: "v \<noteq> []"
    obtain y ys where y: "v = y # ys" using v by (cases v) auto
    have "y \<in> set (''<strong>'' @ a)" using uv y by (metis in_set_conv_decomp)
    then have "y \<noteq> CHR ''*'' \<and> y \<noteq> CHR ''_''" using pd by auto
    then show "exec italic_re (rev u @ []) (v @ ''*'' @ b @ ''*'' @ c @ ''</strong>'') = None"
      by (simp add: y italic_re_fails)
  qed
  let ?sn = "rev (''<strong>'' @ a)"
  have "exec italic_re ?sn (''*'' @ b @ ''*'' @ (c @ ''</strong>''))
      = Some (MState (rev (''*'' @ b @ ''*'') @ ?sn) (c @ ''</strong>'') [(2, b), (1, ''*'')])"
    using b pd by (intro exec_italic) auto
  then have i2: "scan italic_re ?sn ((''*'' @ b @ ''*'') @ (c @ ''</strong>''))
      = Mtch (''*'' @ b @ ''*'') [(2, b), (1, ''*'')] (rev ?sn) (c @ ''</strong>'')
          # scan italic_re (rev (''*'' @ b @ ''*'') @ ?sn) (c @ ''</strong>'')"
    using scan_hit [of italic_re ?sn "''*'' @ b @ ''*''" "c @ ''</strong>''"] by simp
  have i3: "\<And>sn. scan italic_re sn (c @ ''</strong>'') = map Chr (c @ ''</strong>'')"
    using pd by (intro scan_first_char italic_re_fails) auto
  have sc: "scan italic_re [] ?S = map Chr (''<strong>'' @ a)
      @ Mtch (''*'' @ b @ ''*'') [(2, b), (1, ''*'')] (''<strong>'' @ a) (c @ ''</strong>'')
      # map Chr (c @ ''</strong>'')"
    using i1 i2 i3 by simp
  have s6: "replace_all_tpl italic_re 2 ''<em>$2</em>'' ?S = ?R"
    unfolding replace_all_tpl_def sc render_chrs_app render_mtch caps_list_2 tpl_em render_chrs
    by (simp add: cap_of_def)
  have s7: "replace_all_tpl link_re 2 link_tpl ?R = ?R"
    using pd by (intro replace_all_tpl_none scan_first_char link_re_fails) auto
  have s8: "wrap_paragraphs ?R = ''<p>'' @ ?R @ ''</p>''"
  proof (rule wrap_single)
    show "\<forall>x\<in>set ?R. x \<noteq> CHR 0x0A" using pd by auto
    show "?R \<noteq> []" by simp
    show "\<not> is_space (hd ?R)" by (simp add: is_space_def)
    show "\<not> is_space (last ?R)" by (simp add: is_space_def)
    show "exec structural_re [] ?R = None"
      by (simp add: structural_re_def exec_def to_lower_def is_digit_def)
  qed
  show ?thesis
    by (simp add: renderMarkdown_def s1 [simplified] s2 [simplified] s3 [simplified]
          render_inline_def s4 [simplified] s5 [simplified] s6 [simplified] s7 [simplified]
          s8 [simplified])
qed

lemma is_digit_facts:
  "is_digit d \<Longrightarrow> \<not> is_space d \<and> \<not> is_line_terminator d \<and> is_dot d \<and> d \<noteq> CHR ''.''
     \<and> d \<noteq> CHR ''#'' \<and> d \<noteq> CHR ''>'' \<and> plain_char d"
  by (auto simp add: is_digit_def is_space_def is_line_terminator_def is_dot_def plain_char_def)

lemma scan_bol_line:
  assumes bol: "\<And>sn x td. \<not> is_line_terminator x \<Longrightarrow> exec m (x # sn) td = None"
    and fail: "\<And>sn r. exec m sn (d # r) = None"
    and lt: "\<forall>x\<in>set (d # l). \<not> is_line_terminator x"
  shows "scan m sn ((d # l) @ rest) = map Chr (d # l) @ scan m (rev (d # l) @ sn) rest"
proof (rule scan_skip)
  fix u v assume uv: "d # l = u @ v" and v: "v \<noteq> []"
  show "exec m (rev u @ sn) (v @ rest) = None"
  proof (cases u rule: rev_cases)
    case Nil
    then show ?thesis using uv fail by (cases v) auto
  next
    case (snoc us x)
    then have "x \<in> set (d # l)" using uv by (metis in_set_conv_decomp append.assoc append_Cons)
    then have "\<not> is_line_terminator x" using lt by blast
    then show ?thesis using snoc bol by simp
  qed
qed

lemma scan_bol_newline:
  assumes bol: "\<And>sn x td. \<not> is_line_terminator x \<Longrightarrow> exec m (x # sn) td = None"
    and "\<not> is_line_terminator x"
  shows "scan m (x # sn) (CHR 0x0A # rest) = Chr (CHR 0x0A) # scan m (CHR 0x0A # x # sn) rest"
  using assms by (simp add: scan.simps)

lemma scan_bol_lines:
  assumes bol: "\<And>sn x td. \<not> is_line_terminator x \<Longrightarrow> exec m (x # sn) td = None"
    and fail: "\<And>sn d r. is_digit d \<Longrightarrow> exec m sn (d # r) = None"
    and fin: "\<And>sn. exec m sn [] = None"
  shows "ls \<noteq> [] \<Longrightarrow> \<forall>l\<in>set ls. digit_line l \<Longrightarrow>
         scan m sn (join_lines ls) = map Chr (join_lines ls)"
proof (induction ls arbitrary: sn rule: join_lines.induct)
  case 1
  then show ?case by simp
next
  case (2 l)
  then obtain d r where l: "l = d # r" and d: "is_digit d" and lt: "\<forall>x\<in>set (d # r). \<not> is_line_terminator x"
    by (auto simp add: digit_line_def split: list.splits)
  have "scan m sn ((d # r) @ []) = map Chr (d # r) @ scan m (rev (d # r) @ sn) []"
    using bol fail [OF d] lt by (intro scan_bol_line) auto
  then show ?case
    using fin by (simp add: l scan_end)
next
  case (3 l l' ls)
  then obtain d r where l: "l = d # r" and d: "is_digit d" and lt: "\<forall>x\<in>set (d # r). \<not> is_line_terminator x"
    by (auto simp add: digit_line_def split: list.splits)
  have a: "scan m sn ((d # r) @ (CHR 0x0A # join_lines (l' # ls)))
      = map Chr (d # r) @ scan m (rev (d # r) @ sn) (CHR 0x0A # join_lines (l' # ls))"
    using bol fail [OF d] lt by (intro scan_bol_line) auto
  obtain x xs where rv: "rev (d # r) = x # xs"
    by (cases "rev (d # r)") auto
  then have "x \<in> set (d # r)"
    by (metis list.set_intros(1) set_rev)
  then have x: "\<not> is_line_terminator x" using lt by blast
  have e: "rev (d # r) @ sn = x # (xs @ sn)"
    using rv by simp
  have b: "scan m (rev (d # r) @ sn) (CHR 0x0A # join_lines (l' # ls))
      = Chr (CHR 0x0A) # scan m (CHR 0x0A # rev (d # r) @ sn) (join_lines (l' # ls))"
    unfolding e using bol x by (rule scan_bol_newline)
  have c: "scan m (CHR 0x0A # rev (d # r) @ sn) (join_lines (l' # ls)) = map Chr (join_lines (l' # ls))"
    using 3 by simp
  show ?case
    unfolding l join_lines.simps using a b c by simp
qed

lemma heading_re_bol:
  "\<not> is_line_terminator x \<Longrightarrow> exec heading_re (x # sn) td = None"
  "is_digit d \<Longrightarrow> exec heading_re sn (d # r) = None"
  "exec heading_re sn [] = None"
proof -
  show "\<not> is_line_terminator x \<Longrightarrow> exec heading_re (x # sn) td = None"
    by (simp add: heading_re_def exec_def)
  show "is_digit d \<Longrightarrow> exec heading_re sn (d # r) = None"
    using is_digit_facts [of d] by (cases sn) (simp_all add: heading_re_def exec_def)
  show "exec heading_re sn [] = None"
    by (cases sn) (simp_all add: heading_re_def exec_def)
qed

lemma blockquote_re_bol:
  "\<not> is_line_terminator x \<Longrightarrow> exec blockquote_re (x # sn) td = None"
  "is_digit d \<Longrightarrow> exec blockquote_re sn (d # r) = None"
  "exec blockquote_re sn [] = None"
proof -
  show "\<not> is_line_terminator x \<Longrightarrow> exec blockquote_re (x # sn) td = None"
    by (simp add: blockquote_re_def exec_def)
  show "is_digit d \<Longrightarrow> exec blockquote_re sn (d # r) = None"
    using is_digit_facts [of d] by (cases sn) (simp_all add: blockquote_re_def exec_def)
  show "exec blockquote_re sn [] = None"
    by (cases sn) (simp_all add: blockquote_re_def exec_def)
qed

lemma list_item_okD:
  assumes "list_item_ok (num, sp, txt)"
  shows "num \<noteq> []" "\<forall>x\<in>set num. is_digit x" "sp \<noteq> []" "\<forall>x\<in>set sp. is_space x"
    "\<forall>x\<in>set sp. is_dot x" "txt \<noteq> []" "\<forall>x\<in>set txt. plain_char x"
    "\<not> is_space (hd txt)" "\<not> is_space (last txt)"
  using assms by (auto simp add: list_item_ok_def list_all_iff)

lemma ol_item_core:
  assumes ok: "list_item_ok (num, sp, txt)"
    and stop: "case rest of [] \<Rightarrow> True | c # cs \<Rightarrow> \<not> is_dot c"
    and k: "rep_greedy (\<lambda>c. c = CHR 0x0A) 0 (Some 1) (MState (rev (num @ ''.'' @ sp @ txt) @ sn) rest cp) k = Some r"
  shows "ol_item (MState sn (num @ ''.'' @ sp @ txt @ rest) cp) k = Some r"
proof -
  note d = list_item_okD [OF ok]
  obtain t ts where tx: "txt = t # ts" using d(6) by (cases "txt") auto
  obtain n ns where num: "num = n # ns" using d(1) by (cases num) auto
  let ?F = "rep_greedy (\<lambda>c. c = CHR 0x0A) 0 (Some 1)"
  have e: "rep_greedy_aux is_dot 1 None cp (rev sp @ CHR ''.'' # rev num @ sn) (txt @ rest) (\<lambda>st'. ?F st' k) = Some r"
  proof (rule greedy_max)
    show "\<forall>x\<in>set txt. is_dot x" using d(7) plain_charD by blast
    show "case rest of [] \<Rightarrow> True | c # cs \<Rightarrow> \<not> is_dot c" by (rule stop)
    show "1 \<le> length txt" by (simp add: tx)
    show "?F (MState (rev txt @ rev sp @ CHR ''.'' # rev num @ sn) rest cp) k = Some r"
      using k by simp
  qed
  have dd: "rep_greedy_aux is_space 1 None cp (CHR ''.'' # rev num @ sn) (sp @ (txt @ rest))
      (\<lambda>st'. rep_greedy is_dot 1 None st' (\<lambda>st'. ?F st' k)) = Some r"
  proof (rule greedy_max)
    show "\<forall>x\<in>set sp. is_space x" by (rule d(4))
    show "case txt @ rest of [] \<Rightarrow> True | c # cs \<Rightarrow> \<not> is_space c" using d(8) by (simp add: tx)
    show "1 \<le> length sp" using d(3) by (cases sp) simp_all
    show "rep_greedy is_dot 1 None (MState (rev sp @ CHR ''.'' # rev num @ sn) (txt @ rest) cp) (\<lambda>st'. ?F st' k) = Some r"
      using e by simp
  qed
  have b: "rep_greedy_aux is_digit 1 None cp sn (num @ (CHR ''.'' # sp @ txt @ rest))
      (\<lambda>st'. lit ''.'' st' (\<lambda>st'. rep_greedy is_space 1 None st'
         (\<lambda>st'. rep_greedy is_dot 1 None st' (\<lambda>st'. ?F st' k)))) = Some r"
  proof (rule greedy_max)
    show "\<forall>x\<in>set num. is_digit x" by (rule d(2))
    show "case CHR ''.'' # sp @ txt @ rest of [] \<Rightarrow> True | c # cs \<Rightarrow> \<not> is_digit c"
      by (simp add: is_digit_def)
    show "1 \<le> length num" by (simp add: num)
    show "lit ''.'' (MState (rev num @ sn) (CHR ''.'' # sp @ txt @ rest) cp)
        (\<lambda>st'. rep_greedy is_space 1 None st' (\<lambda>st'. rep_greedy is_dot 1 None st' (\<lambda>st'. ?F st' k))) = Some r"
      using dd by simp
  qed
  have s: "\<not> is_space n" using d(2) is_digit_facts num by auto
  show ?thesis
    using b s by (simp add: ol_item_def num)
qed

lemma ol_item_empty:
  "ol_item (MState sn [] cp) k = None"
  by (simp add: ol_item_def)

lemma plus_iter_empty:
  "plus_iter n ol_item (MState sn [] cp) k = None"
  by (cases n) (simp_all add: ol_item_empty)

lemma ol_lines:
  "items \<noteq> [] \<Longrightarrow> \<forall>it\<in>set items. list_item_ok it \<Longrightarrow> length items \<le> n \<Longrightarrow>
   plus_iter n ol_item (MState sn (join_lines (map ol_line items)) cp) Some
     = Some (MState (rev (join_lines (map ol_line items)) @ sn) [] cp)"
proof (induction items arbitrary: n sn)
  case Nil
  then show ?case by simp
next
  case (Cons it items)
  obtain num sp body where it: "it = (num, sp, body)" by (cases it) auto
  have ok: "list_item_ok (num, sp, body)" using Cons.prems(2) it by simp
  obtain n' where n: "n = Suc n'" using Cons.prems(3) by (cases n) auto
  let ?line = "num @ ''.'' @ sp @ body"
  have line: "ol_line it = ?line"
    by (simp add: it ol_line_def)
  show ?case
  proof (cases items)
    case Nil
    let ?k = "again (length (?line @ [])) (\<lambda>st'. plus_iter n' ol_item st' Some) Some"
    have "ol_item (MState sn (num @ ''.'' @ sp @ body @ []) cp) ?k
        = Some (MState (rev ?line @ sn) [] cp)"
      by (rule ol_item_core [OF ok]) (simp_all add: plus_iter_empty)
    then show ?thesis
      by (simp add: Nil n line)
  next
    case (Cons it' items')
    let ?rest = "join_lines (map ol_line (it' # items'))"
    let ?k = "again (length (?line @ CHR 0x0A # ?rest)) (\<lambda>st'. plus_iter n' ol_item st' Some) Some"
    have ih: "plus_iter n' ol_item (MState (CHR 0x0A # rev ?line @ sn) ?rest cp) Some
        = Some (MState (rev ?rest @ CHR 0x0A # rev ?line @ sn) [] cp)"
      using Cons.IH [of n' "CHR 0x0A # rev ?line @ sn"] Cons.prems Cons n by simp
    have "ol_item (MState sn (num @ ''.'' @ sp @ body @ (CHR 0x0A # ?rest)) cp) ?k
        = Some (MState (rev ?rest @ CHR 0x0A # rev ?line @ sn) [] cp)"
    proof (rule ol_item_core [OF ok])
      show "case CHR 0x0A # ?rest of [] \<Rightarrow> True | c # cs \<Rightarrow> \<not> is_dot c"
        by (simp add: is_dot_def is_line_terminator_def)
      show "rep_greedy (\<lambda>c. c = CHR 0x0A) 0 (Some 1)
          (MState (rev ?line @ sn) (CHR 0x0A # ?rest) cp) ?k
          = Some (MState (rev ?rest @ CHR 0x0A # rev ?line @ sn) [] cp)"
        using ih by (cases ?rest) (simp_all add: dec_def)
    qed
    then show ?thesis
      by (simp add: Cons n line)
  qed
qed

lemma join_lines_set:
  "x \<in> set (join_lines ls) \<Longrightarrow> x = CHR 0x0A \<or> (\<exists>l\<in>set ls. x \<in> set l)"
  by (induction ls rule: join_lines.induct) auto

lemma join_lines_length:
  "\<forall>l\<in>set ls. l \<noteq> [] \<Longrightarrow> length ls \<le> length (join_lines ls)"
proof (induction ls rule: join_lines.induct)
  case 1
  then show ?case by simp
next
  case (2 l)
  then show ?case by (cases l) simp_all
next
  case (3 l l' ls)
  then show ?case by simp
qed

lemma join_lines_hd:
  "ls \<noteq> [] \<Longrightarrow> hd ls \<noteq> [] \<Longrightarrow> hd (join_lines ls) = hd (hd ls)"
  by (induction ls rule: join_lines.induct) simp_all

lemma join_lines_nonempty:
  "ls \<noteq> [] \<Longrightarrow> hd ls \<noteq> [] \<Longrightarrow> join_lines ls \<noteq> []"
  by (induction ls rule: join_lines.induct) simp_all

lemma join_lines_last:
  "ls \<noteq> [] \<Longrightarrow> \<forall>l\<in>set ls. l \<noteq> [] \<Longrightarrow> last (join_lines ls) = last (last ls)"
proof (induction ls rule: join_lines.induct)
  case 1
  then show ?case by simp
next
  case (2 l)
  then show ?case by simp
next
  case (3 l l' ls)
  have "join_lines (l' # ls) \<noteq> []"
    using 3(3) by (intro join_lines_nonempty) simp_all
  then show ?case
    using 3 by simp
qed

lemma ol_line_chars:
  assumes "list_item_ok it" and "x \<in> set (ol_line it)"
  shows "is_digit x \<or> x = CHR ''.'' \<or> (is_space x \<and> is_dot x) \<or> plain_char x"
proof -
  obtain num sp body where it: "it = (num, sp, body)" by (cases it) auto
  note d = list_item_okD [OF assms(1) [unfolded it]]
  show ?thesis
    using assms(2) d by (auto simp add: it ol_line_def)
qed

lemma ol_char_facts:
  assumes "is_digit x \<or> x = CHR ''.'' \<or> (is_space x \<and> is_dot x) \<or> plain_char x \<or> x = CHR 0x0A"
  shows "x \<noteq> CHR 0x60 \<and> x \<noteq> CHR ''&'' \<and> x \<noteq> CHR ''<'' \<and> x \<noteq> CHR ''>'' \<and> x \<noteq> CHR 0x22
     \<and> x \<noteq> CHR 0x27"
  using assms by (auto simp add: is_digit_def is_space_def plain_char_def)

lemma ol_char_not_lt:
  assumes "is_digit x \<or> x = CHR ''.'' \<or> (is_space x \<and> is_dot x) \<or> plain_char x"
  shows "\<not> is_line_terminator x"
  using assms
  by (auto simp add: is_digit_def is_dot_def plain_char_def is_line_terminator_def split: if_splits)

lemma ol_line_digit_line:
  assumes "list_item_ok it"
  shows "digit_line (ol_line it)"
proof -
  obtain num sp body where it: "it = (num, sp, body)" by (cases it) auto
  note d = list_item_okD [OF assms [unfolded it]]
  obtain n ns where num: "num = n # ns" using d(1) by (cases num) auto
  have "\<And>x. x \<in> set (ol_line it) \<Longrightarrow> \<not> is_line_terminator x"
    using ol_line_chars [OF assms] ol_char_not_lt by blast
  then show ?thesis
    using d(2) by (simp add: digit_line_def it ol_line_def num)
qed

lemma ol_line_ends:
  assumes "list_item_ok it"
  shows "ol_line it \<noteq> []" "\<not> is_space (hd (ol_line it))" "\<not> is_space (last (ol_line it))"
    "CHR 0x0A \<notin> set (ol_line it)"
proof -
  obtain num sp body where it: "it = (num, sp, body)" by (cases it) auto
  note d = list_item_okD [OF assms [unfolded it]]
  obtain n ns where num: "num = n # ns" using d(1) by (cases num) auto
  show "ol_line it \<noteq> []" by (simp add: it ol_line_def num)
  show "\<not> is_space (hd (ol_line it))"
    using d(2) is_digit_facts [of n] by (simp add: it ol_line_def num)
  show "\<not> is_space (last (ol_line it))"
    using d(6,9) by (simp add: it ol_line_def)
  show "CHR 0x0A \<notin> set (ol_line it)"
    using ol_line_digit_line [OF assms]
    by (auto simp add: digit_line_def is_line_terminator_def split: list.splits)
qed

lemma ol_re_end: "exec ol_re sn [] = None"
  by (cases sn) (simp_all add: ol_re_def exec_def ol_item_empty)

lemma exec_ol_lines:
  assumes ne: "items \<noteq> []" and ok: "\<forall>it\<in>set items. list_item_ok it"
  shows "exec ol_re [] (join_lines (map ol_line items))
           = Some (MState (rev (join_lines (map ol_line items))) [] [])"
proof -
  let ?md = "join_lines (map ol_line items)"
  have "length (map ol_line items) \<le> length ?md"
    using ok ol_line_ends(1) by (intro join_lines_length) auto
  then have "length items \<le> Suc (length ?md)" by simp
  from ol_lines [OF ne ok this, of "[]" "[]"]
  show ?thesis
    by (simp add: ol_re_def exec_def)
qed

subsection \<open>Splitting at line feeds\<close>

lemma split_newline_skip:
  "CHR 0x0A \<notin> set l \<Longrightarrow>
   split_from newline_re sn cur (l @ rest) = split_from newline_re (rev l @ sn) (rev l @ cur) rest"
proof (induction l arbitrary: sn cur)
  case Nil
  then show ?case by simp
next
  case (Cons c cs)
  have "exec newline_re sn (c # cs @ rest) = None"
    using Cons.prems by (auto simp add: exec_def newline_re_def)
  then show ?case
    using Cons by simp
qed

lemma split_newline_lines:
  "ls \<noteq> [] \<Longrightarrow> \<forall>l\<in>set ls. CHR 0x0A \<notin> set l \<Longrightarrow>
   split_from newline_re sn cur (join_lines ls) = (rev cur @ hd ls) # tl ls"
proof (induction ls arbitrary: sn cur rule: join_lines.induct)
  case 1
  then show ?case by simp
next
  case (2 l)
  then show ?case
    using split_newline_skip [of l sn cur "[]"] by simp
next
  case (3 l l' ls)
  have a: "split_from newline_re sn cur (l @ CHR 0x0A # join_lines (l' # ls))
      = split_from newline_re (rev l @ sn) (rev l @ cur) (CHR 0x0A # join_lines (l' # ls))"
    using 3(3) by (intro split_newline_skip) simp
  have b: "split_from newline_re (rev l @ sn) (rev l @ cur) (CHR 0x0A # join_lines (l' # ls))
      = (rev cur @ l) # split_from newline_re (CHR 0x0A # rev l @ sn) [] (join_lines (l' # ls))"
    by (simp add: exec_def newline_re_def)
  have c: "split_from newline_re (CHR 0x0A # rev l @ sn) [] (join_lines (l' # ls)) = l' # ls"
    using 3 by simp
  show ?case
    unfolding join_lines.simps a b c by simp
qed

lemma strip_ol_prefix:
  assumes "list_item_ok it"
  shows "replace_first_fn ol_prefix_re (\<lambda>mt cp. []) [] (ol_line it) = item_text it"
proof -
  obtain num sp body where it: "it = (num, sp, body)" by (cases it) auto
  note d = list_item_okD [OF assms [unfolded it]]
  obtain n ns where num: "num = n # ns" using d(1) by (cases num) auto
  obtain t ts where body: "body = t # ts" using d(6) by (cases body) auto
  let ?r = "MState (rev sp @ CHR ''.'' # rev num) body []"
  have dd: "rep_greedy_aux is_space 1 None [] (CHR ''.'' # rev num @ []) (sp @ body) Some = Some ?r"
  proof (rule greedy_max)
    show "\<forall>x\<in>set sp. is_space x" by (rule d(4))
    show "case body of [] \<Rightarrow> True | c # cs \<Rightarrow> \<not> is_space c" using d(8) by (simp add: body)
    show "1 \<le> length sp" using d(3) by (cases sp) simp_all
    show "Some (MState (rev sp @ CHR ''.'' # rev num @ []) body []) = Some ?r" by simp
  qed
  have b: "rep_greedy_aux is_digit 1 None [] [] (num @ (CHR ''.'' # sp @ body))
      (\<lambda>st'. lit ''.'' st' (\<lambda>st'. rep_greedy is_space 1 None st' Some)) = Some ?r"
  proof (rule greedy_max)
    show "\<forall>x\<in>set num. is_digit x" by (rule d(2))
    show "case CHR ''.'' # sp @ body of [] \<Rightarrow> True | c # cs \<Rightarrow> \<not> is_digit c"
      by (simp add: is_digit_def)
    show "1 \<le> length num" by (simp add: num)
    show "lit ''.'' (MState (rev num @ []) (CHR ''.'' # sp @ body) []) (\<lambda>st'. rep_greedy is_space 1 None st' Some) = Some ?r"
      using dd by simp
  qed
  have s: "\<not> is_space n" using d(2) is_digit_facts num by auto
  have e: "exec ol_prefix_re [] (n # ns @ CHR ''.'' # sp @ body) = Some ?r"
    using b s by (simp add: ol_prefix_re_def exec_def num)
  show ?thesis
    by (simp add: it ol_line_def item_text_def num e)
qed

lemma scan_bol_single:
  assumes bol: "\<And>sn x td. \<not> is_line_terminator x \<Longrightarrow> exec m (x # sn) td = None"
    and lt: "\<forall>c\<in>set td. \<not> is_line_terminator c" and first: "exec m [] td = None"
  shows "scan m [] td = map Chr td"
proof (rule scan_none)
  fix u v assume td: "td = u @ v"
  show "exec m (rev u @ []) v = None"
  proof (cases u rule: rev_cases)
    case Nil
    then show ?thesis using first td by simp
  next
    case (snoc us x)
    then have "\<not> is_line_terminator x"
      using lt td by simp
    then show ?thesis
      using snoc bol by simp
  qed
qed

lemma ul_re_bol: "\<not> is_line_terminator x \<Longrightarrow> exec ul_re (x # sn) td = None"
  by (simp add: ul_re_def exec_def)

lemma wrap_structural:
  assumes nl: "\<forall>x\<in>set td. x \<noteq> CHR 0x0A" and ne: "td \<noteq> []"
    and h: "\<not> is_space (hd td)" and l: "\<not> is_space (last td)"
    and t: "exec structural_re [] td \<noteq> None"
  shows "wrap_paragraphs td = td"
proof -
  obtain c cs where td: "td = c # cs"
    using ne by (cases td) auto
  have "regex_test structural_re td"
    using t by (auto simp add: regex_test_def td)
  then show ?thesis
    using split_no_newline [OF nl, of "[]" "[]"] trim_id [OF ne h l] ne
    by (simp add: wrap_paragraphs_def split_re_def paragraph_block_def)
qed

lemma item_text_plain:
  "list_item_ok it \<Longrightarrow> x \<in> set (item_text it) \<Longrightarrow> plain_char x"
  by (cases it) (auto simp add: list_item_ok_def item_text_def list_all_iff)

lemma li_chars:
  "\<forall>it\<in>set items. list_item_ok it \<Longrightarrow>
   x \<in> set (concat (map (\<lambda>it. ''<li>'' @ item_text it @ ''</li>'') items)) \<Longrightarrow>
   x \<in> set ''<li>/'' \<or> plain_char x"
proof (induction items)
  case Nil
  then show ?case by simp
next
  case (Cons it items)
  then show ?case
    using item_text_plain [of it x] by auto
qed

text \<open>
  An input that consists of \<open>N\<close> ordered-list lines separated by single line feeds (each
  a number, a dot, white space and a plain text without white space at its ends) renders
  as exactly one \<open><ol>\<close> element with exactly \<open>N\<close> items, the texts of the lines in their
  order, whatever the numbers are.
\<close>

lemma ordered_list_run:
  assumes ne: "items \<noteq> []" and ok: "\<forall>it\<in>set items. list_item_ok it"
  shows "renderMarkdown (join_lines (map ol_line items))
           = ''<ol>'' @ concat (map (\<lambda>it. ''<li>'' @ item_text it @ ''</li>'') items) @ ''</ol>''"
proof -
  let ?L = "map ol_line items"
  let ?md = "join_lines ?L"
  let ?LI = "concat (map (\<lambda>it. ''<li>'' @ item_text it @ ''</li>'') items)"
  let ?O = "''<ol>'' @ ?LI @ ''</ol>''"
  have Lne: "?L \<noteq> []" using ne by simp
  have lines: "\<And>l. l \<in> set ?L \<Longrightarrow> l \<noteq> [] \<and> digit_line l \<and> CHR 0x0A \<notin> set l"
    using ok ol_line_ends(1,4) ol_line_digit_line by auto
  have ch: "\<And>x. x \<in> set ?md \<Longrightarrow>
      is_digit x \<or> x = CHR ''.'' \<or> (is_space x \<and> is_dot x) \<or> plain_char x \<or> x = CHR 0x0A"
    using join_lines_set [of _ ?L] ol_line_chars ok by fastforce
  note cf = ol_char_facts [OF ch]
  have s1: "extract_fences (scan fence_re [] ?md) [] = (?md, [])"
    using cf by (intro no_fences) auto
  have s2: "escapeHtml ?md = ?md"
    using cf by (intro escapeHtml_plain) auto
  have s3: "replace_all_fn heading_re heading_fn ?md = ?md"
    using Lne lines by (intro replace_all_fn_none scan_bol_lines heading_re_bol) auto
  have s4: "replace_all_tpl blockquote_re 1 ''<blockquote><p>$1</p></blockquote>'' ?md = ?md"
    using Lne lines by (intro replace_all_tpl_none scan_bol_lines blockquote_re_bol) auto
  have hdL: "hd ?L \<in> set ?L" using Lne by (rule hd_in_set)
  have laL: "last ?L \<in> set ?L" using Lne by (rule last_in_set)
  have hdi: "hd ?L = ol_line (hd items)" using ne by (simp add: hd_map)
  have lai: "last ?L = ol_line (last items)" using ne by (simp add: last_map)
  have mdne: "?md \<noteq> []"
    using Lne lines [OF hdL] by (intro join_lines_nonempty) simp_all
  have hdl: "\<not> is_space (hd ?md)"
    using join_lines_hd [OF Lne] lines [OF hdL] ol_line_ends(2) [of "hd items"] ok ne
    by (simp add: hdi)
  have lal: "\<not> is_space (last ?md)"
    using join_lines_last [OF Lne] lines ol_line_ends(3) [of "last items"] ok ne
    by (simp add: lai)
  have "scan ol_re [] (?md @ []) = Mtch ?md (caps (MState (rev ?md) [] [])) (rev []) [] # scan ol_re (rev ?md @ []) []"
    using exec_ol_lines [OF ne ok] mdne by (intro scan_hit) simp_all
  then have so: "scan ol_re [] ?md = [Mtch ?md [] [] []]"
    by (simp add: scan_end ol_re_end)
  have sp: "split_re newline_re (trim ?md) = ?L"
    using split_newline_lines [of ?L "[]" "[]"] Lne lines trim_id [OF mdne hdl lal]
    by (simp add: split_re_def)
  have st: "map (\<lambda>line. replace_first_fn ol_prefix_re (\<lambda>mt cp. []) [] line) ?L = map item_text items"
    using ok strip_ol_prefix by simp
  have li: "list_items ol_prefix_re ?md = ?LI"
    unfolding list_items_def sp st by (simp add: comp_def)
  have s5: "replace_all_fn ol_re (\<lambda>block cp. ''<ol>'' @ list_items ol_prefix_re block @ ''</ol>'') ?md = ?O"
    unfolding replace_all_fn_def so by (simp add: li)
  have och: "\<And>x. x \<in> set ?O \<Longrightarrow> x \<in> set ''<ol>/i'' \<or> plain_char x"
    using li_chars [OF ok] by auto
  have ocf: "\<And>x. x \<in> set ?O \<Longrightarrow> x \<noteq> CHR 0x60 \<and> x \<noteq> CHR ''*'' \<and> x \<noteq> CHR ''_'' \<and> x \<noteq> CHR ''[''
      \<and> x \<noteq> CHR 0x0A \<and> \<not> is_line_terminator x"
    using och by (fastforce simp add: plain_char_def is_line_terminator_def)
  have s6: "\<And>f. replace_all_fn ul_re f ?O = ?O"
  proof (intro replace_all_fn_none scan_bol_single ul_re_bol)
    show "\<forall>c\<in>set ?O. \<not> is_line_terminator c" using ocf by blast
    show "exec ul_re [] ?O = None"
      by (simp add: ul_re_def ul_item_def exec_def is_space_def is_bullet_def)
  qed
  have s7: "replace_all_fn inline_code_re inline_code_fn ?O = ?O"
    using ocf by (intro replace_all_fn_none scan_first_char inline_code_re_fails) auto
  have s8: "replace_all_tpl bold_re 1 ''<strong>$1</strong>'' ?O = ?O"
    using ocf by (intro replace_all_tpl_none scan_first_char bold_re_fails) auto
  have s9: "replace_all_tpl italic_re 2 ''<em>$2</em>'' ?O = ?O"
    using ocf by (intro replace_all_tpl_none scan_first_char italic_re_fails) auto
  have s10: "replace_all_tpl link_re 2 link_tpl ?O = ?O"
    using ocf by (intro replace_all_tpl_none scan_first_char link_re_fails) auto
  have s11: "wrap_paragraphs ?O = ?O"
  proof (rule wrap_structural)
    show "\<forall>x\<in>set ?O. x \<noteq> CHR 0x0A" using ocf by blast
    show "?O \<noteq> []" by simp
    show "\<not> is_space (hd ?O)" by (simp add: is_space_def)
    show "\<not> is_space (last ?O)" by (simp add: is_space_def)
    show "exec structural_re [] ?O \<noteq> None"
      by (simp add: structural_re_def exec_def to_lower_def is_digit_def)
  qed
  have blocks: "render_blocks ?md = ?O"
    unfolding render_blocks_def s3 s4 s5 s6 by (rule refl)
  have inline: "render_inline ?O = ?O"
    unfolding render_inline_def s7 s8 s9 s10 by (rule refl)
  show ?thesis
    unfolding renderMarkdown_def s1 by (simp only: prod.case s2 blocks inline s11 restore_blocks.simps)
qed

lemma nested_emphasis_example:
  "renderMarkdown ''**a *b* c**'' = ''<p><strong>a <em>b</em> c</strong></p>''"
  using nested_emphasis [of "''a ''" "''b''" "'' c''"]
  by (simp add: plain_char_def)

lemma ordered_list_run_example:
  "renderMarkdown (join_lines [''1. first'', ''1. second'', ''7. third''])
     = ''<ol><li>first</li><li>second</li><li>third</li></ol>''"
proof -
  have ok: "\<forall>it\<in>set [(''1'', '' '', ''first''), (''1'', '' '', ''second''), (''7'', '' '', ''third'')].
      list_item_ok it"
    by (simp add: list_item_ok_def is_digit_def is_space_def is_dot_def is_line_terminator_def plain_char_def)
  show ?thesis
    using ordered_list_run [OF _ ok] by (simp add: ol_line_def item_text_def)
qed

text \<open>
  C7. The span \<open>**a *b* c**\<close> alone renders as a strong element with the em element
  inside. After a text with an asterisk of its own, \<open>2 * 3 and **a *b* c**\<close>, it does not:
  the italic pattern \<open>(\*|_)([^*_]+)\1\<close> runs on the output of the bold pass and pairs the
  asterisk of \<open>2 * 3\<close> with the first asterisk inside the span, across the \<open><strong>\<close> tag,
  so the em element opens outside the strong element and closes inside it, and the inner
  italic is left as asterisks. With a line feed inside the span the bold pattern, whose
  \<open>.\<close> stops at a line feed, does not match, and the italic pass splits the two double
  delimiters into two italic spans.
\<close>

theorem emphasis_misnested:
  "renderMarkdown ''**a *b* c**'' = ''<p><strong>a <em>b</em> c</strong></p>''
   \<and> renderMarkdown ''2 * 3 and **a *b* c**'' = ''<p>2 <em> 3 and <strong>a </em>b* c</strong></p>''
   \<and> renderMarkdown (''**a'' @ [CHR 0x0A] @ ''*b* c**'')
       = ''<p>*<em>a'' @ [CHR 0x0A] @ ''</em>b<em> c</em>*</p>''"
  by code_simp

text \<open>
  C8. Two consecutive ordered-list lines render as one list of two items. Two runs of one
  line each, with a blank line between them, do not render as two lists: the item pattern
  starts with \<open>\s*\<close>, which also takes line feeds, so the blank line and the second line
  are matched as one more item of the first run, and the block is split at every line
  feed: one list of three items, the middle one empty.
\<close>

theorem blank_line_joins_runs:
  "renderMarkdown (join_lines [''1. a'', ''2. b'']) = ''<ol><li>a</li><li>b</li></ol>''
   \<and> renderMarkdown (join_lines [''1. a'', [], ''2. b'']) = ''<ol><li>a</li><li></li><li>b</li></ol>''"
  by code_simp

text \<open>
  C1. A fenced block with \<open><b>\<close> comes out escaped inside \<open><pre><code>\<close>. A fenced block
  with \<open>$<\<close> does not: its escaped form \<open>$&lt;\<close> is given to \<open>String.replace\<close> as a
  replacement string, where \<open>$&\<close> stands for the matched placeholder, so the output holds
  the placeholder followed by \<open>lt;\<close> and no escaped \<open><\<close>.
\<close>

theorem fenced_dollar_mangled:
  "renderMarkdown ''x```<b>```y'' = ''<p>x<pre><code>&lt;b&gt;</code></pre>y</p>''
   \<and> renderMarkdown ''```$<```'' = ''<p><pre><code>@@CODEBLOCK0@@lt;</code></pre></p>''"
  by code_simp

text \<open>
  C6. The scenario of the specification renders as it says. An inline span with \<open><\<close>
  is escaped twice: once with the rest of the text, once more by the inline-code pass.
\<close>

theorem inline_code_escaped_twice:
  "renderMarkdown ''**bold** and `code`'' = ''<p><strong>bold</strong> and <code>code</code></p>''
   \<and> renderMarkdown ''`<`'' = ''<p><code>&amp;lt;</code></p>''"
  by code_simp

end
